theory Spec2Isabelle
  imports Complex_Main
begin

section \<open>Implicit contact model (imc.py): double-precision values\<close>

text \<open>
  NumPy's float64 with the special values the code tests for. A finite value carries a
  real number; NaN and the two infinities behave as in IEEE 754 (NaN absorbs every
  operation and compares false with everything, opposite infinities add to NaN, zero times
  infinity is NaN, a non-zero value over zero is an infinity, zero over zero is NaN). The
  operators \<open>+\<close>, \<open>-\<close>, \<open>*\<close> and \<open>/\<close> are exact on finite values, and the sign of zero
  is not kept. Rounding to the nearest double is the function \<open>rnd\<close> below: it is applied
  to every operation of the stiffness controller and to the difference the detector
  compares with the collision limit, where the rounded result decides which branch is
  taken or which pair is selected; in the force and Hessian arithmetic the rounding of
  the values is abstracted.
\<close>

datatype f64 = Fin real | PInf | NInf | NaN

fun isnan :: "f64 \<Rightarrow> bool" where
  "isnan NaN = True"
| "isnan _ = False"

fun isinf :: "f64 \<Rightarrow> bool" where
  "isinf PInf = True"
| "isinf NInf = True"
| "isinf _ = False"

fun isfinite :: "f64 \<Rightarrow> bool" where
  "isfinite (Fin _) = True"
| "isfinite _ = False"

text \<open>The infinity carrying the sign of a non-zero real.\<close>

definition inf_of :: "real \<Rightarrow> f64" where
  "inf_of x = (if x = 0 then NaN else if 0 < x then PInf else NInf)"

instantiation f64 :: "{zero, one, plus, minus, uminus, times, inverse, ord}"
begin

definition zero_f64 :: f64 where
  "zero_f64 = Fin 0"

definition one_f64 :: f64 where
  "one_f64 = Fin 1"

fun plus_f64 :: "f64 \<Rightarrow> f64 \<Rightarrow> f64" where
  "plus_f64 (Fin x) (Fin y) = Fin (x + y)"
| "plus_f64 NaN _ = NaN"
| "plus_f64 _ NaN = NaN"
| "plus_f64 PInf NInf = NaN"
| "plus_f64 NInf PInf = NaN"
| "plus_f64 PInf _ = PInf"
| "plus_f64 _ PInf = PInf"
| "plus_f64 NInf _ = NInf"
| "plus_f64 _ NInf = NInf"

fun uminus_f64 :: "f64 \<Rightarrow> f64" where
  "uminus_f64 (Fin x) = Fin (- x)"
| "uminus_f64 PInf = NInf"
| "uminus_f64 NInf = PInf"
| "uminus_f64 NaN = NaN"

definition minus_f64 :: "f64 \<Rightarrow> f64 \<Rightarrow> f64" where
  "minus_f64 (a::f64) b = a + (- b)"

fun times_f64 :: "f64 \<Rightarrow> f64 \<Rightarrow> f64" where
  "times_f64 (Fin x) (Fin y) = Fin (x * y)"
| "times_f64 NaN _ = NaN"
| "times_f64 _ NaN = NaN"
| "times_f64 (Fin x) PInf = inf_of x"
| "times_f64 (Fin x) NInf = inf_of (- x)"
| "times_f64 PInf (Fin y) = inf_of y"
| "times_f64 NInf (Fin y) = inf_of (- y)"
| "times_f64 PInf PInf = PInf"
| "times_f64 NInf NInf = PInf"
| "times_f64 PInf NInf = NInf"
| "times_f64 NInf PInf = NInf"

fun divide_f64 :: "f64 \<Rightarrow> f64 \<Rightarrow> f64" where
  "divide_f64 (Fin x) (Fin y) = (if y = 0 then inf_of x else Fin (x / y))"
| "divide_f64 NaN _ = NaN"
| "divide_f64 _ NaN = NaN"
| "divide_f64 (Fin x) PInf = Fin 0"
| "divide_f64 (Fin x) NInf = Fin 0"
| "divide_f64 PInf (Fin y) = (if 0 \<le> y then PInf else NInf)"
| "divide_f64 NInf (Fin y) = (if 0 \<le> y then NInf else PInf)"
| "divide_f64 PInf PInf = NaN"
| "divide_f64 PInf NInf = NaN"
| "divide_f64 NInf PInf = NaN"
| "divide_f64 NInf NInf = NaN"

fun inverse_f64 :: "f64 \<Rightarrow> f64" where
  "inverse_f64 (Fin y) = (if y = 0 then PInf else Fin (1 / y))"
| "inverse_f64 NaN = NaN"
| "inverse_f64 _ = Fin 0"

fun less_f64 :: "f64 \<Rightarrow> f64 \<Rightarrow> bool" where
  "less_f64 (Fin x) (Fin y) = (x < y)"
| "less_f64 NaN _ = False"
| "less_f64 _ NaN = False"
| "less_f64 NInf NInf = False"
| "less_f64 NInf _ = True"
| "less_f64 PInf _ = False"
| "less_f64 _ PInf = True"
| "less_f64 _ NInf = False"

fun less_eq_f64 :: "f64 \<Rightarrow> f64 \<Rightarrow> bool" where
  "less_eq_f64 (Fin x) (Fin y) = (x \<le> y)"
| "less_eq_f64 NaN _ = False"
| "less_eq_f64 _ NaN = False"
| "less_eq_f64 NInf _ = True"
| "less_eq_f64 _ PInf = True"
| "less_eq_f64 PInf _ = False"
| "less_eq_f64 _ NInf = False"

instance ..

end

text \<open>NumPy's \<open>==\<close> on float64: NaN equals nothing, itself included.\<close>

definition feq :: "f64 \<Rightarrow> f64 \<Rightarrow> bool" where
  "feq a b = (\<not> isnan a \<and> \<not> isnan b \<and> a = b)"

fun fsqrt :: "f64 \<Rightarrow> f64" where
  "fsqrt (Fin x) = (if x < 0 then NaN else Fin (sqrt x))"
| "fsqrt PInf = PInf"
| "fsqrt NInf = NaN"
| "fsqrt NaN = NaN"

text \<open>Sums of float64 values: with these rules addition is associative and commutative.\<close>

instance f64 :: comm_monoid_add
proof
  fix x y z :: f64
  show "0 + x = x"
    by (cases x) (simp_all add: zero_f64_def)
  show "x + y = y + x"
    by (cases y; cases x) simp_all
  show "x + y + z = x + (y + z)"
    by (cases z; cases y; cases x) simp_all
qed

text \<open>
  \<open>np.min\<close> of a one-dimensional array: NaN propagates, and an empty array raises
  ValueError.
\<close>

definition fmin :: "f64 \<Rightarrow> f64 \<Rightarrow> f64" where
  "fmin a b = (if isnan a \<or> isnan b then NaN else if b < a then b else a)"

section \<open>Rounding to binary64\<close>

text \<open>
  Round to nearest, ties to even, as the hardware does for every float64 operation. A
  double is an integer multiple of \<open>2 ^ (e - 52)\<close>, where \<open>e\<close> is the exponent of its binade
  \<open>[2 ^ e, 2 ^ (e + 1))\<close> and is never below \<open>-1022\<close> (the subnormal range shares the
  spacing \<open>2 ^ -1074\<close>); a result of magnitude \<open>2 ^ 1024\<close> or more after rounding is an
  infinity.
\<close>

definition rne :: "real \<Rightarrow> int" where
  "rne x = (let n = \<lfloor>x\<rfloor>; d = x - of_int n in
            if d < 1 / 2 then n else if 1 / 2 < d then n + 1
            else if even n then n else n + 1)"

text \<open>
  The exponent of the binade of \<open>x\<close>, searched upwards from 0 when \<open>1 \<le> |x|\<close> and downwards
  from \<open>-1\<close> otherwise, between \<open>-1022\<close> and 1024.
\<close>

fun binade_up :: "real \<Rightarrow> int \<Rightarrow> nat \<Rightarrow> int" where
  "binade_up x e 0 = e"
| "binade_up x e (Suc n) = (if 2 powi (e + 1) \<le> x then binade_up x (e + 1) n else e)"

fun binade_down :: "real \<Rightarrow> int \<Rightarrow> nat \<Rightarrow> int" where
  "binade_down x e 0 = e"
| "binade_down x e (Suc n) = (if x < 2 powi e then binade_down x (e - 1) n else e)"

definition binade :: "real \<Rightarrow> int" where
  "binade x = (if 1 \<le> \<bar>x\<bar> then binade_up \<bar>x\<bar> 0 1024 else binade_down \<bar>x\<bar> (- 1) 1021)"

definition round64 :: "real \<Rightarrow> f64" where
  "round64 x =
     (let u = 2 powi (binade x - 52); y = of_int (rne (x / u)) * u in
      if 2 powi 1024 \<le> \<bar>y\<bar> then (if 0 < x then PInf else NInf) else Fin y)"

text \<open>The rounded result of an operation, and the values that are doubles.\<close>

fun rnd :: "f64 \<Rightarrow> f64" where
  "rnd (Fin x) = round64 x"
| "rnd v = v"

definition is_f64 :: "f64 \<Rightarrow> bool" where
  "is_f64 v = (rnd v = v)"

section \<open>Stiffness controller\<close>

text \<open>
  \<open>IMC._update_contact_stiffness(curr_cd, last_cd)\<close>, on the two fields of the object it
  reads and the one it writes: the result is the new \<open>contact_stiffness\<close>. Every literal
  is the double nearest to the decimal, and every sum, difference and product is rounded.
\<close>

definition update_contact_stiffness :: "f64 \<Rightarrow> f64 \<Rightarrow> f64 \<Rightarrow> f64 \<Rightarrow> f64" where
  "update_contact_stiffness contact_len contact_stiffness curr_cd last_cd =
     (let diff = rnd (curr_cd - last_cd) in
      if curr_cd > rnd (contact_len + round64 0.005) \<and> diff > Fin 0
      then rnd (contact_stiffness * round64 0.999)
      else if diff < Fin 0 then
        (if curr_cd < rnd (contact_len - round64 0.004)
         then rnd (contact_stiffness * round64 1.01)
         else if curr_cd < rnd (contact_len - round64 0.002)
         then rnd (contact_stiffness * round64 1.005)
         else if curr_cd < rnd (contact_len - round64 0.001)
         then rnd (contact_stiffness * round64 1.003)
         else if curr_cd < contact_len then rnd (contact_stiffness * round64 1.001)
         else contact_stiffness)
      else contact_stiffness)"

section \<open>NumPy arrays as lists\<close>

text \<open>
  A one-dimensional array is a list, a two-dimensional array a list of rows. The
  exceptions the code can raise are values.
\<close>

datatype error =
    ValueError
  | IndexError
  | AssertionError string
  | AttributeError
  | OverflowError
  | TypeError

text \<open>
  A bound \<open>k\<close> of a slice of an axis of length \<open>len\<close>: a negative bound counts from the
  end, and the result is clipped into \<open>0..len\<close>. The slice \<open>a[r0:r1]\<close> selects the rows
  from \<open>slice_idx len r0\<close> up to \<open>slice_idx len r1\<close>, none when the second is not above the
  first.
\<close>

definition slice_idx :: "nat \<Rightarrow> int \<Rightarrow> nat" where
  "slice_idx len k = (if k < 0 then nat (int len + k) else min (nat k) len)"

definition py_slice :: "'a list \<Rightarrow> int \<Rightarrow> int \<Rightarrow> 'a list" where
  "py_slice xs r0 r1 =
     (let start = slice_idx (length xs) r0; stop = slice_idx (length xs) r1
      in take (stop - start) (drop start xs))"

definition py_slice_from :: "'a list \<Rightarrow> int \<Rightarrow> 'a list" where
  "py_slice_from xs r0 = drop (slice_idx (length xs) r0) xs"

definition py_slice_to :: "'a list \<Rightarrow> int \<Rightarrow> 'a list" where
  "py_slice_to xs r1 = take (slice_idx (length xs) r1) xs"

text \<open>\<open>range(a, b)\<close>.\<close>

definition py_range :: "int \<Rightarrow> int \<Rightarrow> int list" where
  "py_range a b = [a..b - 1]"

text \<open>
  Broadcasting a source of shape \<open>(k, w)\<close> to a target of shape \<open>(m, n)\<close>: each axis of the
  source has the target's length or length one. A scalar is the source \<open>[[x]]\<close>, a
  one-dimensional source assigned to whole rows is \<open>[xs]\<close>, and one assigned to a single
  column is the column \<open>map (\<lambda>x. [x]) xs\<close>.
\<close>

definition broadcast_to :: "nat \<Rightarrow> nat \<Rightarrow> 'a list list \<Rightarrow> error + 'a list list" where
  "broadcast_to m n src =
     (if (length src = m \<or> length src = 1) \<and>
         list_all (\<lambda>row. length row = n \<or> length row = 1) src
      then Inr (map (\<lambda>row. if length row = n then row else replicate n (hd row))
                 (if length src = m then src else replicate m (hd src)))
      else Inl ValueError)"

text \<open>
  \<open>a[r0:r1, c0:c1] = src\<close> on an array whose rows have at least \<open>c1\<close> columns, returning
  the array after the assignment.
\<close>

definition np_setitem ::
  "'a list list \<Rightarrow> int \<Rightarrow> int \<Rightarrow> nat \<Rightarrow> nat \<Rightarrow> 'a list list \<Rightarrow> error + 'a list list" where
  "np_setitem a r0 r1 c0 c1 src =
     (let start = slice_idx (length a) r0; stop = slice_idx (length a) r1; m = stop - start
      in case broadcast_to m (c1 - c0) src of
           Inl e \<Rightarrow> Inl e
         | Inr vals \<Rightarrow>
             Inr (take start a
                  @ map2 (\<lambda>row v. take c0 row @ v @ drop c1 row) (take m (drop start a)) vals
                  @ drop (start + m) a))"

definition column :: "'a list \<Rightarrow> 'a list list" where
  "column xs = map (\<lambda>x. [x]) xs"

definition np_zeros :: "'a \<Rightarrow> int \<Rightarrow> nat \<Rightarrow> error + 'a list list" where
  "np_zeros z rows cols =
     (if rows < 0 then Inl ValueError else Inr (replicate (nat rows) (replicate cols z)))"

section \<open>The edge-pair table of \<open>IMC.__init__\<close>\<close>

text \<open>
  The count of the eligible edge pairs: the two nested loops over \<open>i\<close> and \<open>j\<close> that skip
  \<open>j\<close> when \<open>i in range(j - ia, j + ia + 1)\<close>.
\<close>

definition count_edge_combos :: "int \<Rightarrow> int \<Rightarrow> int" where
  "count_edge_combos num_edges ia =
     foldl (\<lambda>c i.
        foldl (\<lambda>c j. if j - ia \<le> i \<and> i < j + ia + 1 then c else c + 1) c
          (py_range i num_edges))
       0 (py_range 0 num_edges)"

text \<open>
  The loop that fills \<open>edge_ids\<close>, on the iterations \<open>is\<close> that remain, the running row
  \<open>ri\<close> and the table. The ids are kept as unbounded integers: an id is below
  \<open>num_edges\<close>, and a table of \<open>num_edges\<close> that does not fit 32 bits cannot be allocated.
\<close>

fun fill_edge_ids ::
  "int \<Rightarrow> int \<Rightarrow> int list \<Rightarrow> int list \<Rightarrow> int \<Rightarrow> int list list \<Rightarrow> error + int list list" where
  "fill_edge_ids num_edges ia indices [] ri edge_ids = Inr edge_ids"
| "fill_edge_ids num_edges ia indices (i # is) ri edge_ids =
     (let add = num_edges - i - (ia + 1) in
      case np_setitem edge_ids ri (ri + add) 0 1 [[i]] of
        Inl e \<Rightarrow> Inl e
      | Inr ids1 \<Rightarrow>
          (case np_setitem ids1 ri (ri + add) 1 2 (column (py_slice_from indices (i + ia + 1))) of
             Inl e \<Rightarrow> Inl e
           | Inr ids2 \<Rightarrow> fill_edge_ids num_edges ia indices is (ri + add) ids2))"

text \<open>
  The part of \<open>__init__\<close> that builds the table: \<open>ia = 2\<close>, the count, \<open>indices\<close>, the
  zero table of \<open>num_edge_combos\<close> rows and two columns, and the fill.
\<close>

definition init_edge_ids :: "int \<Rightarrow> error + int list list" where
  "init_edge_ids num_edges =
     (let ia = 2;
          num_edge_combos = count_edge_combos num_edges ia;
          indices = py_range 0 num_edges
      in case np_zeros 0 num_edge_combos 2 of
           Inl e \<Rightarrow> Inl e
         | Inr edge_ids \<Rightarrow> fill_edge_ids num_edges ia indices (py_range 0 num_edges) 0 edge_ids)"

section \<open>The common shape of the two pair scans\<close>

text \<open>
  The scan of \<open>__init__\<close> over \<open>edge_ids\<close> and the scan of \<open>_jit_detect_collisions\<close> over
  \<open>edge_combos\<close> are the same loop on different data: for each \<open>i\<close>, the left \<open>w\<close>
  columns of the rows \<open>ri\<close> to \<open>ri + add\<close> receive one value \<open>A i\<close> and the right \<open>w\<close>
  columns receive the rows \<open>B i\<close>. \<open>fill_blocks\<close> is that loop, used to reason about both;
  \<open>block_rows A B a\<close> is the table the claim describes, for the first indices below \<open>a\<close>.
\<close>

fun fill_blocks ::
  "int \<Rightarrow> int \<Rightarrow> (int \<Rightarrow> 'a list) \<Rightarrow> (int \<Rightarrow> 'a list list) \<Rightarrow> nat \<Rightarrow> int list \<Rightarrow> int \<Rightarrow> 'a list list
     \<Rightarrow> error + 'a list list" where
  "fill_blocks n ia A B w [] ri buf = Inr buf"
| "fill_blocks n ia A B w (i # is) ri buf =
     (let add = n - i - (ia + 1) in
      case np_setitem buf ri (ri + add) 0 w [A i] of
        Inl e \<Rightarrow> Inl e
      | Inr b1 \<Rightarrow>
          (case np_setitem b1 ri (ri + add) w (2 * w) (B i) of
             Inl e \<Rightarrow> Inl e
           | Inr b2 \<Rightarrow> fill_blocks n ia A B w is (ri + add) b2))"

definition block_rows :: "(int \<Rightarrow> 'a list) \<Rightarrow> (int \<Rightarrow> 'a list list) \<Rightarrow> int \<Rightarrow> 'a list list" where
  "block_rows A B a = concat (map (\<lambda>i. map (\<lambda>b. A i @ b) (B i)) [0..a - 1])"

section \<open>The table the specification describes\<close>

text \<open>
  The pairs \<open>(i, j)\<close> with \<open>0 \<le> i\<close>, \<open>j < num_edges\<close> and \<open>j - i > 2\<close>, by ascending \<open>i\<close> and,
  for equal \<open>i\<close>, ascending \<open>j\<close>; \<open>lex_less\<close> is the lexicographic order of two rows.
\<close>

definition pair_table :: "int \<Rightarrow> int list list" where
  "pair_table n = concat (map (\<lambda>i. map (\<lambda>j. [i, j]) [i + 3..n - 1]) [0..n - 1])"

definition lex_less :: "int list \<Rightarrow> int list \<Rightarrow> bool" where
  "lex_less r s = (r ! 0 < s ! 0 \<or> (r ! 0 = s ! 0 \<and> r ! 1 < s ! 1))"

section \<open>Element-wise operations on batches\<close>

text \<open>
  A batch of per-pair vectors is a list of rows. The operations below are NumPy's
  element-wise operations on operands whose shapes already agree (the callers' arrays
  are built with matching shapes); \<open>cols\<close> is the column slice \<open>m[:, a:b]\<close>.
\<close>

definition cols :: "nat \<Rightarrow> nat \<Rightarrow> 'a list list \<Rightarrow> 'a list list" where
  "cols a b m = map (\<lambda>row. take (b - a) (drop a row)) m"

definition cols_from :: "nat \<Rightarrow> 'a list list \<Rightarrow> 'a list list" where
  "cols_from a m = map (drop a) m"

definition vadd :: "f64 list \<Rightarrow> f64 list \<Rightarrow> f64 list" where
  "vadd xs ys = map2 (+) xs ys"

definition vsub :: "f64 list \<Rightarrow> f64 list \<Rightarrow> f64 list" where
  "vsub xs ys = map2 (-) xs ys"

definition vscale :: "f64 \<Rightarrow> f64 list \<Rightarrow> f64 list" where
  "vscale c xs = map (\<lambda>x. c * x) xs"

definition madd :: "f64 list list \<Rightarrow> f64 list list \<Rightarrow> f64 list list" where
  "madd a b = map2 vadd a b"

definition msub :: "f64 list list \<Rightarrow> f64 list list \<Rightarrow> f64 list list" where
  "msub a b = map2 vsub a b"

definition mscale :: "f64 \<Rightarrow> f64 list list \<Rightarrow> f64 list list" where
  "mscale c a = map (vscale c) a"

definition mneg :: "f64 list list \<Rightarrow> f64 list list" where
  "mneg a = map (map uminus) a"

text \<open>\<open>(a ** 2).sum(axis=1)\<close>: the sum of the squares of each row.\<close>

definition row_sq_sums :: "f64 list list \<Rightarrow> f64 list" where
  "row_sq_sums a = map (\<lambda>row. sum_list (map (\<lambda>x. x * x) row)) a"

text \<open>
  \<open>a / s.reshape((n, 1))\<close> and \<open>s.reshape((n, 1)) * a\<close>, \<open>a * s.reshape((n, 1))\<close>: each row
  with its own scalar.
\<close>

definition div_col :: "f64 list list \<Rightarrow> f64 list \<Rightarrow> f64 list list" where
  "div_col a s = map2 (\<lambda>row c. map (\<lambda>x. x / c) row) a s"

definition col_times :: "f64 list \<Rightarrow> f64 list list \<Rightarrow> f64 list list" where
  "col_times s a = map2 (\<lambda>c row. map (\<lambda>x. c * x) row) s a"

definition times_col :: "f64 list list \<Rightarrow> f64 list \<Rightarrow> f64 list list" where
  "times_col a s = map2 (\<lambda>row c. map (\<lambda>x. x * c) row) a s"

definition dot :: "f64 list \<Rightarrow> f64 list \<Rightarrow> f64" where
  "dot xs ys = sum_list (map2 (*) xs ys)"

section \<open>Friction force: \<open>IMC._get_ffr\<close>\<close>

text \<open>
  The three masked assignments \<open>d[d > 0.0] = 1.0\<close>, \<open>d[d < 0.0] = -1.0\<close>,
  \<open>d[d == 0.0] = 0.0\<close>, in the order of the source; a NaN entry passes all three.
\<close>

definition mask_sign :: "f64 list \<Rightarrow> f64 list" where
  "mask_sign d =
     (let d1 = map (\<lambda>x. if x > Fin 0 then Fin 1 else x) d;
          d2 = map (\<lambda>x. if x < Fin 0 then Fin (- 1) else x) d1
      in map (\<lambda>x. if feq x (Fin 0) then Fin 0 else x) d2)"

definition get_ffr ::
  "f64 list list \<Rightarrow> f64 list list \<Rightarrow> f64 list list \<Rightarrow> f64 \<Rightarrow> f64 list list" where
  "get_ffr edges velocities forces mu_k =
     (let x1s = cols 0 3 edges; x1e = cols 3 6 edges; x2s = cols 6 9 edges; x2e = cols_from 9 edges;
          v1s = cols 0 3 velocities; v1e = cols 3 6 velocities;
          v2s = cols 6 9 velocities; v2e = cols_from 9 velocities;
          f1s = cols 0 3 forces; f1e = cols 3 6 forces;
          T1 = div_col (msub x2e x2s) (map fsqrt (row_sq_sums (msub x2e x2s)));
          T2 = div_col (msub x1e x1s) (map fsqrt (row_sq_sums (msub x1e x1s)));
          fn = map fsqrt (row_sq_sums (madd f1s f1e));
          ffr_val = map (\<lambda>x. mu_k * x) fn;
          v1 = mscale (Fin 0.5) (madd v1s v1e);
          v2 = mscale (Fin 0.5) (madd v2s v2e);
          vr1 = msub v1 v2;
          dir1 = mask_sign (map2 (\<lambda>vrx Tx. dot vrx Tx) vr1 T1);
          dir2 = mask_sign (map2 (\<lambda>vrx Ty. dot (map uminus vrx) Ty) vr1 T2);
          ffr1 = times_col (col_times dir1 T1) ffr_val;
          ffr2 = times_col (col_times dir2 T2) ffr_val;
          ffr1x = mscale (Fin 0.50) (msub ffr1 ffr2);
          ffr2x = mneg ffr1x
      in map2 (\<lambda>a b. a @ a @ b @ b) (mscale (Fin 0.50) ffr1x) (mscale (Fin 0.50) ffr2x))"

text \<open>The shape \<open>(n, w)\<close> of a batch, for the hypotheses of the theorems.\<close>

definition shape :: "nat \<Rightarrow> nat \<Rightarrow> 'a list list \<Rightarrow> bool" where
  "shape n w m = (length m = n \<and> list_all (\<lambda>row. length row = w) m)"

section \<open>Sample batches\<close>

text \<open>
  One pair of edges, the first along the x axis and the second along the z axis, with
  endpoint velocities and a contact force; and the same pair with the first edge
  collapsed to a point.
\<close>

definition sample_edges :: "f64 list list" where
  "sample_edges = [map Fin [0, 0, 0, 2, 0, 0, 0, 1, 0, 0, 1, 2]]"

definition sample_velocities :: "f64 list list" where
  "sample_velocities = [map Fin [1, 0, 0, 1, 0, 0, 0, 0, 3, 0, 0, 1]]"

definition sample_forces :: "f64 list list" where
  "sample_forces = [map Fin [0, 3, 0, 0, 1, 0, 0, 0, 0, 0, 0, 0]]"

definition point_edges :: "f64 list list" where
  "point_edges = [map Fin [0, 0, 0, 0, 0, 0, 0, 1, 0, 0, 1, 2]]"

section \<open>Chain rule of the contact energy\<close>

text \<open>
  \<open>a @ b\<close> for a matrix \<open>a\<close> of shape \<open>(n, k)\<close> and a matrix \<open>b\<close> of shape \<open>(k, m)\<close>, and
  the column \<open>a[:, k]\<close>.
\<close>

definition matmul :: "f64 list list \<Rightarrow> f64 list list \<Rightarrow> f64 list list" where
  "matmul a b =
     map (\<lambda>row. map (\<lambda>c. \<Sum>j\<leftarrow>[0..<length b]. row ! j * b ! j ! c) [0..<length (hd b)]) a"

definition col_of :: "nat \<Rightarrow> 'a list list \<Rightarrow> 'a list" where
  "col_of k m = map (\<lambda>row. row ! k) m"

definition zeros2 :: "nat \<Rightarrow> nat \<Rightarrow> f64 list list" where
  "zeros2 n m = replicate n (replicate m (Fin 0))"

text \<open>
  \<open>IMC._chain_rule_contact_nohess(dd_grads, f_grad_vals, s_grad_vals)\<close>, with \<open>dd_grads\<close>
  of shape \<open>(9, 12)\<close>, \<open>f_grad_vals\<close> of shape \<open>(6, n, 12)\<close> and \<open>s_grad_vals\<close> of shape
  \<open>(n, 15)\<close>.
\<close>

definition chain_rule_contact_nohess ::
  "f64 list list \<Rightarrow> f64 list list list \<Rightarrow> f64 list list \<Rightarrow> f64 list list" where
  "chain_rule_contact_nohess dd_grads f_grad_vals s_grad_vals =
     (let num_inputs = length s_grad_vals;
          dE_dx = zeros2 num_inputs 12;
          dE_dx = madd dE_dx (matmul (cols 0 9 s_grad_vals) dd_grads)
      in foldl (\<lambda>dE_dx i. madd dE_dx (col_times (col_of (i + 9) s_grad_vals) (f_grad_vals ! i)))
           dE_dx [0..<6])"

text \<open>
  \<open>IMC._optimize_chain_rule\<close>: the arrays \<open>dE_dx\<close> and \<open>s_hess_vals\<close> it updates in place
  are returned. \<open>s_hess_vals_pre\<close> has shape \<open>(15, n, 15)\<close> and \<open>s_hess_vals\<close> shape
  \<open>(15, n, 12)\<close>.
\<close>

definition optimize_chain_rule ::
  "f64 list list \<Rightarrow> f64 list list list \<Rightarrow> f64 list list \<Rightarrow> f64 list list list
     \<Rightarrow> f64 list list list \<Rightarrow> f64 list list \<Rightarrow> f64 list list \<times> f64 list list list" where
  "optimize_chain_rule dd_grads f_grad_vals s_grad_vals s_hess_vals_pre s_hess_vals dE_dx =
     (let num_inputs = length s_grad_vals;
          dE_dx = madd dE_dx (matmul (cols 0 9 s_grad_vals) dd_grads);
          dE_dx = foldl (\<lambda>dE_dx i.
                     madd dE_dx (col_times (col_of (i + 9) s_grad_vals) (f_grad_vals ! i)))
                   dE_dx [0..<6];
          s_hess_vals =
            map (\<lambda>i.
                let curr_s = s_hess_vals_pre ! i;
                    acc = foldl (\<lambda>acc j.
                            madd acc (col_times (col_of j curr_s)
                                        (replicate num_inputs (dd_grads ! j))))
                          (s_hess_vals ! i) [0..<9]
                in foldl (\<lambda>acc j. madd acc (col_times (col_of (j + 9) curr_s) (f_grad_vals ! j)))
                     acc [0..<6])
              [0..<15]
      in (dE_dx, s_hess_vals))"

text \<open>
  Batches of matrices, one per pair: the sum, the product \<open>u @ v\<close> of a column \<open>(12, 1)\<close>
  and a row \<open>(1, 12)\<close>, and a matrix scaled by the scalar of its pair.
\<close>

definition tadd :: "f64 list list list \<Rightarrow> f64 list list list \<Rightarrow> f64 list list list" where
  "tadd a b = map2 madd a b"

definition outer :: "f64 list \<Rightarrow> f64 list \<Rightarrow> f64 list list" where
  "outer u v = map (\<lambda>x. map (\<lambda>y. x * y) v) u"

definition scale_each :: "f64 list \<Rightarrow> f64 list list list \<Rightarrow> f64 list list list" where
  "scale_each s ms = map2 (\<lambda>c m. mscale c m) s ms"

text \<open>
  \<open>IMC._chain_rule_contact_hess\<close>, on the fields \<open>dd_grads\<close> and \<open>f_hess_const\<close> (shape
  \<open>(5, 12, 12)\<close>) it reads; \<open>f_hess_vals\<close> has shape \<open>(n, 12, 12)\<close>.
\<close>

definition chain_rule_contact_hess ::
  "f64 list list \<Rightarrow> f64 list list list \<Rightarrow> f64 list list list \<Rightarrow> f64 list list
     \<Rightarrow> f64 list list list \<Rightarrow> f64 list list list \<Rightarrow> f64 list list \<times> f64 list list list" where
  "chain_rule_contact_hess dd_grads f_hess_const f_grad_vals s_grad_vals f_hess_vals s_hess_vals_pre =
     (let num_inputs = length s_grad_vals;
          dE_dx = zeros2 num_inputs 12;
          d2E_dx2 = replicate num_inputs (zeros2 12 12);
          s_hess_vals = replicate 15 (zeros2 num_inputs 12);
          (dE_dx, s_hess_vals) =
             optimize_chain_rule dd_grads f_grad_vals s_grad_vals s_hess_vals_pre s_hess_vals dE_dx;
          d2E_dx2 = foldl (\<lambda>d2E_dx2 i.
                       tadd d2E_dx2 (map (\<lambda>u. outer u (dd_grads ! i)) (s_hess_vals ! i)))
                     d2E_dx2 [0..<9];
          d2E_dx2 = foldl (\<lambda>d2E_dx2 i.
                       let d2E_dx2 = tadd d2E_dx2
                             (scale_each (col_of (i + 9) s_grad_vals)
                                (replicate num_inputs (f_hess_const ! i)))
                       in tadd d2E_dx2 (map2 outer (s_hess_vals ! (i + 9)) (f_grad_vals ! i)))
                     d2E_dx2 [0..<5];
          d2E_dx2 = tadd d2E_dx2 (scale_each (col_of 14 s_grad_vals) f_hess_vals);
          d2E_dx2 = tadd d2E_dx2 (map2 outer (s_hess_vals ! 14) (f_grad_vals ! 5))
      in (dE_dx, d2E_dx2))"

text \<open>\<open>IMC._get_ffr_jacobian_inputs\<close>: 37 scalars per pair.\<close>

definition get_ffr_jacobian_inputs ::
  "f64 list list \<Rightarrow> f64 list list \<Rightarrow> f64 list list \<Rightarrow> f64 \<Rightarrow> f64 list list" where
  "get_ffr_jacobian_inputs edges velocities dE_dx mu_k =
     map2 (\<lambda>e (v, d). map (\<lambda>x. Fin 0 + x) e @ map (\<lambda>x. Fin 0 + x) v @ map (\<lambda>x. Fin 0 + x) d
                       @ [Fin 0 + mu_k])
       edges (zip velocities dE_dx)"

text \<open>
  \<open>IMC._chain_rule_friction_jacobian\<close>: \<open>ffr_grad_s\<close> has shape \<open>(n, 6, 24)\<close> and
  \<open>d2E_dx2\<close> shape \<open>(n, 12, 12)\<close>.
\<close>

definition chain_rule_friction_jacobian ::
  "f64 list list list \<Rightarrow> f64 list list list \<Rightarrow> f64 list list list" where
  "chain_rule_friction_jacobian ffr_grad_s d2E_dx2 =
     (let ffr1_grad = map2 (\<lambda>g h. madd (cols 0 12 (take 3 g)) (matmul (cols_from 12 (take 3 g)) h))
                        ffr_grad_s d2E_dx2;
          ffr2_grad = map2 (\<lambda>g h. madd (cols 0 12 (drop 3 g)) (matmul (cols_from 12 (drop 3 g)) h))
                        ffr_grad_s d2E_dx2
      in map2 (\<lambda>g1 g2. madd (zeros2 3 12) g1 @ madd (zeros2 3 12) g1
                        @ madd (zeros2 3 12) g2 @ madd (zeros2 3 12) g2)
           ffr1_grad ffr2_grad)"



definition sample_dd :: "f64 list list" where
  "sample_dd = replicate 9 (replicate 12 (Fin 3))"

definition sample_f_hess_const :: "f64 list list list" where
  "sample_f_hess_const = replicate 5 (zeros2 12 12)"



section \<open>Collision detection: \<open>IMC._jit_detect_collisions\<close>\<close>

text \<open>
  \<open>a[i] = v\<close> for a row index \<open>i\<close> (a negative index counts from the end) and a
  one-dimensional source of the row's length, or of length one.
\<close>

definition np_setrow :: "'a list list \<Rightarrow> int \<Rightarrow> 'a list \<Rightarrow> error + 'a list list" where
  "np_setrow a i v =
     (let n = int (length a); j = (if i < 0 then n + i else i) in
      if 0 \<le> j \<and> j < n then
        (let w = length (a ! nat j) in
         if length v = w then Inr (a[nat j := v])
         else if length v = 1 then Inr (a[nat j := replicate w (hd v)])
         else Inl ValueError)
      else Inl IndexError)"

text \<open>\<open>np.where(bs)\<close> on a one-dimensional array of booleans, and \<open>a[idx]\<close> for a list of row indices.\<close>

definition np_where :: "bool list \<Rightarrow> nat list" where
  "np_where bs = filter (\<lambda>r. bs ! r) [0..<length bs]"

definition take_rows :: "'a list \<Rightarrow> nat list \<Rightarrow> error + 'a list" where
  "take_rows a idx =
     (if list_all (\<lambda>r. r < length a) idx then Inr (map (\<lambda>r. a ! r) idx) else Inl IndexError)"

definition np_min :: "f64 list \<Rightarrow> error + f64" where
  "np_min xs = (case xs of [] \<Rightarrow> Inl ValueError | x # rest \<Rightarrow> Inr (foldl fmin x rest))"

text \<open>The first loop: \<open>edges[i] = node_data[3*i:(3*i)+6]\<close>.\<close>

fun fill_edges :: "f64 list \<Rightarrow> int list \<Rightarrow> f64 list list \<Rightarrow> error + f64 list list" where
  "fill_edges node_data [] es = Inr es"
| "fill_edges node_data (i # is) es =
     (case np_setrow es i (py_slice node_data (3 * i) (3 * i + 6)) of
        Inl e \<Rightarrow> Inl e
      | Inr es1 \<Rightarrow> fill_edges node_data is es1)"

text \<open>The second loop, over \<open>edge_combos\<close>, with the running row \<open>ri\<close>.\<close>

fun fill_edge_combos ::
  "int \<Rightarrow> int \<Rightarrow> f64 list list \<Rightarrow> int list \<Rightarrow> int \<Rightarrow> f64 list list \<Rightarrow> error + f64 list list" where
  "fill_edge_combos n gap es [] ri combos = Inr combos"
| "fill_edge_combos n gap es (i # is) ri combos =
     (let base_edge = es ! nat i;
          add = n - i - (gap + 1) in
      case np_setitem combos ri (ri + add) 0 6 [base_edge] of
        Inl e \<Rightarrow> Inl e
      | Inr c1 \<Rightarrow>
          (case np_setitem c1 ri (ri + add) 6 12 (py_slice_from es (i + gap + 1)) of
             Inl e \<Rightarrow> Inl e
           | Inr c2 \<Rightarrow> fill_edge_combos n gap es is (ri + add) c2))"

text \<open>
  The detector. \<open>min_dist_vectorized\<close> is a function of \<open>imc_utils\<close>, which is not among
  the sources: it is a parameter, mapping the batch of combined edges to one distance per
  row. The result holds the two arrays the function writes (\<open>edges\<close>, \<open>edge_combos\<close>),
  the active pairs and the closest distance. The difference \<open>minDs - contact_len\<close> is the
  rounded one.
\<close>

definition jit_detect_collisions ::
  "(f64 list list \<Rightarrow> f64 list) \<Rightarrow> f64 list list \<Rightarrow> f64 list list \<Rightarrow> int list list \<Rightarrow> f64
     \<Rightarrow> f64 list \<Rightarrow> f64 \<Rightarrow> int
     \<Rightarrow> error + (f64 list list \<times> f64 list list \<times> int list list \<times> f64)" where
  "jit_detect_collisions min_dist_vectorized es combos ids climit node_data clen gap =
     (let n = int (length es) in
      case fill_edges node_data (py_range 0 n) es of
        Inl e \<Rightarrow> Inl e
      | Inr es1 \<Rightarrow>
          (case fill_edge_combos n gap es1 (py_range 0 n) 0 combos of
             Inl e \<Rightarrow> Inl e
           | Inr combos1 \<Rightarrow>
               (let minDs = min_dist_vectorized combos1;
                    col_indices = np_where (map (\<lambda>d. rnd (d - clen) < climit) minDs) in
                case take_rows ids col_indices of
                  Inl e \<Rightarrow> Inl e
                | Inr f_edge_ids \<Rightarrow>
                    (case np_min minDs of
                       Inl e \<Rightarrow> Inl e
                     | Inr closest_distance \<Rightarrow>
                         Inr (es1, combos1, f_edge_ids, closest_distance)))))"

section \<open>Per-pair data: \<open>_jit_prepare_velocities\<close> and \<open>_jit_prepare_edges\<close>\<close>

text \<open>
  One row of twelve scalars per active pair \<open>(x, y)\<close>: \<open>data[3*x:(3*x)+6]\<close> in the first
  six columns and \<open>data[3*y:(3*y)+6]\<close> in the last six.
\<close>

definition gather6 :: "f64 list \<Rightarrow> int \<Rightarrow> error + f64 list" where
  "gather6 data x =
     (let v = py_slice data (3 * x) (3 * x + 6) in
      if length v = 6 then Inr v
      else if length v = 1 then Inr (replicate 6 (hd v))
      else Inl ValueError)"

fun gather_pairs :: "f64 list \<Rightarrow> int list list \<Rightarrow> error + f64 list list" where
  "gather_pairs data [] = Inr []"
| "gather_pairs data (ids # rest) =
     (case ids of
        [x, y] \<Rightarrow>
          (case gather6 data x of
             Inl e \<Rightarrow> Inl e
           | Inr a \<Rightarrow>
               (case gather6 data y of
                  Inl e \<Rightarrow> Inl e
                | Inr b \<Rightarrow>
                    (case gather_pairs data rest of
                       Inl e \<Rightarrow> Inl e
                     | Inr rows \<Rightarrow> Inr ((a @ b) # rows))))
      | _ \<Rightarrow> Inl ValueError)"

definition jit_prepare_velocities :: "int list list \<Rightarrow> f64 list \<Rightarrow> error + f64 list list" where
  "jit_prepare_velocities ids velocity_data = gather_pairs velocity_data ids"

text \<open>
  \<open>min_dist_f_out_vectorized\<close> is the second function of \<open>imc_utils\<close>, a parameter as
  well: it returns the distances and the derived parameters of the batch.
\<close>

definition jit_prepare_edges ::
  "(f64 list list \<Rightarrow> f64 list \<times> f64 list list) \<Rightarrow> int list list \<Rightarrow> f64 list
     \<Rightarrow> error + (f64 list list \<times> f64 \<times> f64 list list)" where
  "jit_prepare_edges min_dist_f_out_vectorized ids node_data =
     (case gather_pairs node_data ids of
        Inl e \<Rightarrow> Inl e
      | Inr combos \<Rightarrow>
          (case min_dist_f_out_vectorized combos of
             (dists, f_out_vals) \<Rightarrow>
               (case np_min dists of
                  Inl e \<Rightarrow> Inl e
                | Inr closest_distance \<Rightarrow> Inr (combos, closest_distance, f_out_vals))))"

section \<open>Global assembly\<close>

text \<open>
  \<open>a[r0:r1] += b\<close> on a one-dimensional array and \<open>a[r0:r1, c0:c1] += b\<close> on a
  two-dimensional one; the source is broadcast to the shape of the slice.
\<close>

definition np_iadd1 :: "f64 list \<Rightarrow> int \<Rightarrow> int \<Rightarrow> f64 list \<Rightarrow> error + f64 list" where
  "np_iadd1 a r0 r1 b =
     (let start = slice_idx (length a) r0; stop = slice_idx (length a) r1; m = stop - start in
      if length b = m then
        Inr (take start a @ map2 (+) (take m (drop start a)) b @ drop (start + m) a)
      else if length b = 1 then
        Inr (take start a @ map (\<lambda>x. x + hd b) (take m (drop start a)) @ drop (start + m) a)
      else Inl ValueError)"

definition np_iadd2 ::
  "f64 list list \<Rightarrow> int \<Rightarrow> int \<Rightarrow> int \<Rightarrow> int \<Rightarrow> f64 list list \<Rightarrow> error + f64 list list" where
  "np_iadd2 a r0 r1 c0 c1 b =
     (let start = slice_idx (length a) r0; stop = slice_idx (length a) r1; m = stop - start;
          ncols = (case a of [] \<Rightarrow> 0 | row # _ \<Rightarrow> length row);
          cs = slice_idx ncols c0; ce = slice_idx ncols c1; k = ce - cs in
      case broadcast_to m k b of
        Inl e \<Rightarrow> Inl e
      | Inr vals \<Rightarrow>
          Inr (take start a
               @ map2 (\<lambda>row v. take cs row @ map2 (+) (take k (drop cs row)) v @ drop (cs + k) row)
                   (take m (drop start a)) vals
               @ drop (start + m) a))"

text \<open>
  \<open>IMC._py_to_cpp_nohess(py_forces, cpp_forces, edge_ids)\<close>: the loop over the pairs. An
  error carries the buffer as it is at the raise.
\<close>

fun py_to_cpp_nohess ::
  "f64 list list \<Rightarrow> f64 list \<Rightarrow> int list list \<Rightarrow> error \<times> f64 list + f64 list" where
  "py_to_cpp_nohess [] cpp_forces ids = Inr cpp_forces"
| "py_to_cpp_nohess (fv # rest) cpp_forces [] = Inl (IndexError, cpp_forces)"
| "py_to_cpp_nohess (fv # rest) cpp_forces (pair # ids) =
     (case pair of
        [e1, e2] \<Rightarrow>
          (case np_iadd1 cpp_forces (3 * e1) (3 * e1 + 6) (take 6 fv) of
             Inl e \<Rightarrow> Inl (e, cpp_forces)
           | Inr c1 \<Rightarrow>
               (case np_iadd1 c1 (3 * e2) (3 * e2 + 6) (drop 6 fv) of
                  Inl e \<Rightarrow> Inl (e, c1)
                | Inr c2 \<Rightarrow> py_to_cpp_nohess rest c2 ids))
      | _ \<Rightarrow> Inl (ValueError, cpp_forces))"

text \<open>The four 6 by 6 blocks of one pair's jacobian, added into the global Hessian.\<close>

definition add_jacobian_blocks ::
  "f64 list list \<Rightarrow> int \<Rightarrow> int \<Rightarrow> f64 list list \<Rightarrow> error + f64 list list" where
  "add_jacobian_blocks cpp_jacobian e1 e2 jacobian =
     (case np_iadd2 cpp_jacobian (3 * e1) (3 * e1 + 6) (3 * e1) (3 * e1 + 6)
             (cols 0 6 (take 6 jacobian)) of
        Inl e \<Rightarrow> Inl e
      | Inr j1 \<Rightarrow>
          (case np_iadd2 j1 (3 * e1) (3 * e1 + 6) (3 * e2) (3 * e2 + 6)
                  (cols_from 6 (take 6 jacobian)) of
             Inl e \<Rightarrow> Inl e
           | Inr j2 \<Rightarrow>
               (case np_iadd2 j2 (3 * e2) (3 * e2 + 6) (3 * e1) (3 * e1 + 6)
                       (cols 0 6 (drop 6 jacobian)) of
                  Inl e \<Rightarrow> Inl e
                | Inr j3 \<Rightarrow>
                    np_iadd2 j3 (3 * e2) (3 * e2 + 6) (3 * e2) (3 * e2 + 6)
                      (cols_from 6 (drop 6 jacobian)))))"

text \<open>\<open>IMC._jit_py_to_cpp_hess\<close>: forces and jacobians of the pairs, in one loop.\<close>

fun jit_py_to_cpp_hess ::
  "f64 list list \<Rightarrow> f64 list list list \<Rightarrow> f64 list \<Rightarrow> f64 list list \<Rightarrow> int list list
     \<Rightarrow> error \<times> f64 list \<times> f64 list list + f64 list \<times> f64 list list" where
  "jit_py_to_cpp_hess [] py_jacobian cpp_forces cpp_jacobian ids = Inr (cpp_forces, cpp_jacobian)"
| "jit_py_to_cpp_hess (fv # rest) [] cpp_forces cpp_jacobian ids =
     Inl (IndexError, cpp_forces, cpp_jacobian)"
| "jit_py_to_cpp_hess (fv # rest) (jacobian # jrest) cpp_forces cpp_jacobian [] =
     Inl (IndexError, cpp_forces, cpp_jacobian)"
| "jit_py_to_cpp_hess (fv # rest) (jacobian # jrest) cpp_forces cpp_jacobian (pair # ids) =
     (case pair of
        [e1, e2] \<Rightarrow>
          (case np_iadd1 cpp_forces (3 * e1) (3 * e1 + 6) (take 6 fv) of
             Inl e \<Rightarrow> Inl (e, cpp_forces, cpp_jacobian)
           | Inr c1 \<Rightarrow>
               (case np_iadd1 c1 (3 * e2) (3 * e2 + 6) (drop 6 fv) of
                  Inl e \<Rightarrow> Inl (e, c1, cpp_jacobian)
                | Inr c2 \<Rightarrow>
                    (case add_jacobian_blocks cpp_jacobian e1 e2 jacobian of
                       Inl e \<Rightarrow> Inl (e, c2, cpp_jacobian)
                     | Inr j4 \<Rightarrow> jit_py_to_cpp_hess rest jrest c2 j4 ids)))
      | _ \<Rightarrow> Inl (ValueError, cpp_forces, cpp_jacobian))"

section \<open>The object and its methods\<close>

text \<open>
  The fields of an \<open>IMC\<close> object. The pickled building blocks are opaque callables:
  each \<open>f_grad\<close> maps the batch of combined edges to a batch of 12-vectors, each
  \<open>s_grad\<close> maps the derived parameters to one scalar per pair, each \<open>s_hess\<close> to 15
  scalars per pair, \<open>f_hess_func\<close> to a 12 by 12 matrix per pair and
  \<open>ffr_jacobian_func\<close> maps the 37 scalars of each pair to a 6 by 24 matrix per pair;
  \<open>squeeze\<close> and \<open>reshape\<close> only bring their results into these shapes. The five
  shared-memory buffers are \<open>node_coordinates\<close>, \<open>velocities\<close>, \<open>forces\<close>, \<open>hessian\<close>
  and \<open>meta_data\<close>.
\<close>

record imc =
  scale :: f64
  radius :: f64
  num_edges :: int
  collision_limit :: f64
  contact_stiffness :: f64
  mu_k :: f64
  contact_len :: f64
  dd_grads :: "f64 list list"
  f_grad_funcs :: "(f64 list list \<Rightarrow> f64 list list) list"
  f_hess_const :: "f64 list list list"
  f_hess_func :: "f64 list list \<Rightarrow> f64 list list list"
  s_grad_funcs :: "(f64 list list \<Rightarrow> f64 list) list"
  s_hess_funcs :: "(f64 list list \<Rightarrow> f64 list list) list"
  ffr_jacobian_func :: "f64 list list \<Rightarrow> f64 list list list"
  friction :: int
  ia :: int
  indices :: "int list"
  edges :: "f64 list list"
  edge_combos :: "f64 list list"
  edge_ids :: "int list list"
  node_coordinates :: "f64 list"
  velocities :: "f64 list"
  forces :: "f64 list"
  hessian :: "f64 list list"
  meta_data :: "f64 list"

text \<open>The two functions of \<open>imc_utils\<close> the object calls.\<close>

record imc_utils =
  min_dist_vectorized :: "f64 list list \<Rightarrow> f64 list"
  min_dist_f_out_vectorized :: "f64 list list \<Rightarrow> f64 list \<times> f64 list list"

text \<open>
  \<open>_detect_collisions\<close>: the wrapper passes the object's arrays, which the jitted function
  updates in place.
\<close>

definition detect_collisions :: "imc_utils \<Rightarrow> imc \<Rightarrow> error + imc \<times> int list list \<times> f64" where
  "detect_collisions u self =
     (case jit_detect_collisions (min_dist_vectorized u) (edges self) (edge_combos self)
             (edge_ids self) (collision_limit self) (node_coordinates self) (contact_len self)
             (ia self) of
        Inl e \<Rightarrow> Inl e
      | Inr (es, combos, f_edge_ids, closest_distance) \<Rightarrow>
          Inr (self\<lparr>edges := es, edge_combos := combos\<rparr>, f_edge_ids, closest_distance))"

text \<open>
  The contact data of a request: combined edges, active pairs, velocity snapshot and
  derived parameters.
\<close>

type_synonym contact_points = "f64 list list \<times> int list list \<times> f64 list list \<times> f64 list list"

text \<open>\<open>np.sum\<close> of a batch of vectors and of a batch of matrices.\<close>

definition np_sum2 :: "f64 list list \<Rightarrow> f64" where
  "np_sum2 a = sum_list (concat a)"

definition np_sum3 :: "f64 list list list \<Rightarrow> f64" where
  "np_sum3 a = sum_list (concat (concat a))"

text \<open>
  \<open>_get_forces\<close>. A failed assertion, or an error of the assembly, carries the object as
  it is at the raise.
\<close>

definition get_forces :: "imc \<Rightarrow> contact_points \<Rightarrow> error \<times> imc + imc" where
  "get_forces self contact_points =
     (case contact_points of
        (es, ids, vs, s_input_vals) \<Rightarrow>
          (let f_grad_vals = map (\<lambda>f_grad. f_grad es) (f_grad_funcs self);
               s_grad_vals = transpose (map (\<lambda>s_grad. s_grad s_input_vals) (s_grad_funcs self));
               dE_dx = chain_rule_contact_nohess (dd_grads self) f_grad_vals s_grad_vals;
               ffr = get_ffr es vs dE_dx (mu_k self);
               total_forces = (if friction self \<noteq> 0 then madd dE_dx ffr else dE_dx);
               f_test = np_sum2 total_forces in
           if isnan f_test then Inl (AssertionError ''Force had a nan'', self)
           else if isinf f_test then Inl (AssertionError ''Force had an inf'', self)
           else
             (case py_to_cpp_nohess total_forces (forces self) ids of
                Inl (e, fs) \<Rightarrow> Inl (e, self\<lparr>forces := fs\<rparr>)
              | Inr fs \<Rightarrow>
                  Inr (self\<lparr>forces := map (\<lambda>x. x * contact_stiffness self) fs\<rparr>))))"

text \<open>
  \<open>_get_forces_and_hessian\<close>. The four assertions stand inside \<open>try\<close>; the handler of
  \<open>AssertionError\<close> replaces \<open>total_jacobian\<close> by \<open>d2E_dx2\<close> and the method goes on.
\<close>

definition get_forces_and_hessian :: "imc \<Rightarrow> contact_points \<Rightarrow> error \<times> imc + imc" where
  "get_forces_and_hessian self contact_points =
     (case contact_points of
        (es, ids, vs, s_input_vals) \<Rightarrow>
          (let num_inputs = length es;
               f_grad_vals = map (\<lambda>f_grad. f_grad es) (f_grad_funcs self);
               f_hess_vals = f_hess_func self es;
               s_grad_vals = transpose (map (\<lambda>s_grad. s_grad s_input_vals) (s_grad_funcs self));
               s_hess_vals_pre = map (\<lambda>s_hess. s_hess s_input_vals) (s_hess_funcs self);
               (dE_dx, d2E_dx2) =
                  chain_rule_contact_hess (dd_grads self) (f_hess_const self) f_grad_vals
                    s_grad_vals f_hess_vals s_hess_vals_pre;
               ffr_jacobian_input = get_ffr_jacobian_inputs es vs dE_dx (mu_k self);
               ffr = get_ffr es vs dE_dx (mu_k self);
               ffr_grad_s = ffr_jacobian_func self ffr_jacobian_input;
               ffr_jacobian = chain_rule_friction_jacobian ffr_grad_s d2E_dx2;
               total_forces = (if friction self \<noteq> 0 then madd dE_dx ffr else dE_dx);
               total_jacobian = (if friction self \<noteq> 0 then tadd d2E_dx2 ffr_jacobian else d2E_dx2);
               f_test = np_sum2 total_forces;
               h_test = np_sum3 total_jacobian;
               total_jacobian =
                 (if isnan f_test \<or> isinf f_test \<or> isnan h_test \<or> isinf h_test
                  then d2E_dx2 else total_jacobian) in
           case jit_py_to_cpp_hess total_forces total_jacobian (forces self) (hessian self) ids of
             Inl (e, fs, hs) \<Rightarrow> Inl (e, self\<lparr>forces := fs, hessian := hs\<rparr>)
           | Inr (fs, hs) \<Rightarrow>
               Inr (self\<lparr>forces := map (\<lambda>x. x * contact_stiffness self) fs,
                         hessian := map (map (\<lambda>x. x * contact_stiffness self)) hs\<rparr>)))"

text \<open>\<open>_update_contact_stiffness\<close> as a method: it writes \<open>contact_stiffness\<close>.\<close>

definition update_stiffness :: "imc \<Rightarrow> f64 \<Rightarrow> f64 \<Rightarrow> imc" where
  "update_stiffness self curr_cd prev_cd =
     self\<lparr>contact_stiffness :=
            update_contact_stiffness (contact_len self) (contact_stiffness self) curr_cd prev_cd\<rparr>"

section \<open>The request loop: \<open>IMC.start_server\<close>\<close>

text \<open>
  The local variables of \<open>start_server\<close> that live across requests, with the object.
  \<open>None\<close> is Python's \<open>None\<close>.
\<close>

record server =
  self :: imc
  loc_edge_ids :: "int list list option"
  loc_velocities :: "f64 list list option"
  closest_distance :: f64
  last_cd :: f64

definition start_state :: "imc \<Rightarrow> server" where
  "start_state obj =
     \<lparr>self = obj, loc_edge_ids = None, loc_velocities = None,
      closest_distance = Fin 0, last_cd = Fin 0\<rparr>"

text \<open>
  The outcome of one request: the reply is sent and the loop waits again, or an exception
  leaves the loop before \<open>socket.send\<close>, with the object as it is at the raise.
\<close>

datatype outcome = Replied server | Aborted error imc

text \<open>\<open>int(x)\<close> of a float64: truncation, an error on NaN and on an infinity.\<close>

definition py_int :: "f64 \<Rightarrow> error + int" where
  "py_int x =
     (case x of
        Fin r \<Rightarrow> Inr (if 0 \<le> r then \<lfloor>r\<rfloor> else \<lceil>r\<rceil>)
      | NaN \<Rightarrow> Inl ValueError
      | _ \<Rightarrow> Inl OverflowError)"

text \<open>
  The body of \<open>if num_con != 0\<close>: velocities of the active pairs on a first iteration,
  the combined edges, the stiffness update on a first iteration, and the forces with or
  without the Hessian. It returns the object, the velocity snapshot and the closest
  distance of the active pairs.
\<close>

definition contact_step ::
  "imc_utils \<Rightarrow> imc \<Rightarrow> int \<Rightarrow> int \<Rightarrow> int list list \<Rightarrow> f64 list list option \<Rightarrow> f64
     \<Rightarrow> error \<times> imc + imc \<times> f64 list list option \<times> f64" where
  "contact_step u obj first_iter hess ids vel prev_cd =
     (case (if first_iter \<noteq> 0
            then (case jit_prepare_velocities ids (velocities obj) of
                    Inl e \<Rightarrow> Inl e
                  | Inr v \<Rightarrow> Inr (Some v))
            else Inr vel) of
        Inl e \<Rightarrow> Inl (e, obj)
      | Inr vel1 \<Rightarrow>
          (case jit_prepare_edges (min_dist_f_out_vectorized u) ids (node_coordinates obj) of
             Inl e \<Rightarrow> Inl (e, obj)
           | Inr (combos, cd, f_out_vals) \<Rightarrow>
               (let obj1 = (if first_iter \<noteq> 0 then update_stiffness obj cd prev_cd else obj) in
                case vel1 of
                  None \<Rightarrow> Inl (TypeError, obj1)
                | Some v \<Rightarrow>
                    (case (if hess = 0
                           then get_forces obj1 (combos, ids, v, f_out_vals)
                           else get_forces_and_hessian obj1 (combos, ids, v, f_out_vals)) of
                       Inl (e, obj2) \<Rightarrow> Inl (e, obj2)
                     | Inr obj2 \<Rightarrow> Inr (obj2, Some v, cd)))))"

text \<open>
  One pass of the \<open>while\<close> loop, from \<open>socket.recv()\<close> to \<open>socket.send\<close>, in the
  blocks of the source. The shared buffers hold what the solver wrote before its request.

  \<open>begin_request\<close>: the friction flag is stored and the positions are scaled.
  \<open>detect_stage\<close>: on a first iteration the velocities are scaled and the detector sets
  the active pairs and the closest distance; otherwise both keep the values of the
  previous request. \<open>reset_buffers\<close>: the forces are set to zero, and the Hessian when it
  is requested.
\<close>

definition begin_request :: "imc \<Rightarrow> int \<Rightarrow> imc" where
  "begin_request obj fric =
     (let obj1 = obj\<lparr>friction := fric\<rparr> in
      obj1\<lparr>node_coordinates := map (\<lambda>x. x * scale obj1) (node_coordinates obj1)\<rparr>)"

definition detect_stage ::
  "imc_utils \<Rightarrow> server \<Rightarrow> imc \<Rightarrow> int \<Rightarrow> error \<times> imc + imc \<times> int list list option \<times> f64" where
  "detect_stage u srv obj first_iter =
     (if first_iter \<noteq> 0
      then (let obj1 = obj\<lparr>velocities := map (\<lambda>x. x * scale obj) (velocities obj)\<rparr> in
            case detect_collisions u obj1 of
              Inl e \<Rightarrow> Inl (e, obj1)
            | Inr (obj2, ids, cd) \<Rightarrow> Inr (obj2, Some ids, cd))
      else Inr (obj, loc_edge_ids srv, closest_distance srv))"

definition reset_buffers :: "imc \<Rightarrow> int \<Rightarrow> imc" where
  "reset_buffers obj hess =
     (let obj1 = obj\<lparr>forces := map (\<lambda>_. Fin 0) (forces obj)\<rparr> in
      if hess \<noteq> 0 then obj1\<lparr>hessian := map (map (\<lambda>_. Fin 0)) (hessian obj1)\<rparr> else obj1)"

definition serve_request :: "imc_utils \<Rightarrow> server \<Rightarrow> outcome" where
  "serve_request u srv =
     (let obj = self srv in
      case py_int (meta_data obj ! 5) of
        Inl e \<Rightarrow> Aborted e obj
      | Inr hess \<Rightarrow>
      (case py_int (meta_data obj ! 0) of
        Inl e \<Rightarrow> Aborted e obj
      | Inr first_iter \<Rightarrow>
      (case py_int (meta_data obj ! 1) of
        Inl e \<Rightarrow> Aborted e obj
      | Inr fric \<Rightarrow>
      (case detect_stage u srv (begin_request obj fric) first_iter of
         Inl (e, obj4) \<Rightarrow> Aborted e obj4
       | Inr (obj4, ids_opt, cd) \<Rightarrow>
           (let obj6 = reset_buffers obj4 hess in
            case ids_opt of
              None \<Rightarrow> Aborted AttributeError obj6
            | Some ids \<Rightarrow>
                (case (if length ids \<noteq> 0
                       then contact_step u obj6 first_iter hess ids (loc_velocities srv) (last_cd srv)
                       else Inr (obj6, loc_velocities srv, cd)) of
                   Inl (e, obj7) \<Rightarrow> Aborted e obj7
                 | Inr (obj7, vel, cd1) \<Rightarrow>
                     Replied
                       \<lparr>self = obj7\<lparr>meta_data := (meta_data obj7)[4 := cd1 / scale obj7]\<rparr>,
                        loc_edge_ids = Some ids,
                        loc_velocities = vel,
                        closest_distance = cd1,
                        last_cd = (if first_iter \<noteq> 0 then cd1 else last_cd srv)\<rparr>))))))"

text \<open>
  What the solver writes before a request: positions, velocities and the control vector.
  \<open>run\<close> serves the requests in turn and stops at the first exception.
\<close>

record solver_write =
  w_node_coordinates :: "f64 list"
  w_velocities :: "f64 list"
  w_meta_data :: "f64 list"

definition solver_step :: "solver_write \<Rightarrow> server \<Rightarrow> server" where
  "solver_step w srv =
     srv\<lparr>self := (self srv)\<lparr>node_coordinates := w_node_coordinates w,
                              velocities := w_velocities w,
                              meta_data := w_meta_data w\<rparr>\<rparr>"

fun run :: "imc_utils \<Rightarrow> server \<Rightarrow> solver_write list \<Rightarrow> outcome" where
  "run u srv [] = Replied srv"
| "run u srv (w # ws) =
     (case serve_request u (solver_step w srv) of
        Replied srv1 \<Rightarrow> run u srv1 ws
      | Aborted e obj \<Rightarrow> Aborted e obj)"

section \<open>What the detector computes, in closed form\<close>

text \<open>
  The six coordinates of edge \<open>i\<close> in the position buffer, and the combined edges of the
  entries of the pair table, in the order of the table.
\<close>

definition edge_of :: "f64 list \<Rightarrow> int \<Rightarrow> f64 list" where
  "edge_of node_data i = py_slice node_data (3 * i) (3 * i + 6)"

definition pair_rows :: "f64 list \<Rightarrow> int \<Rightarrow> f64 list list" where
  "pair_rows node_data n =
     map (\<lambda>r. edge_of node_data (r ! 0) @ edge_of node_data (r ! 1)) (pair_table n)"

section \<open>Sample rods\<close>

text \<open>
  Stand-ins for the two functions of \<open>imc_utils\<close>: for two edges on one line, the
  second after the first, the distance is the gap between the end of the first
  (column 3) and the start of the second (column 6); the derived parameters are one
  scalar per pair.
\<close>

definition sample_utils :: imc_utils where
  "sample_utils =
     \<lparr>min_dist_vectorized = (\<lambda>c. map (\<lambda>row. row ! 6 - row ! 3) c),
      min_dist_f_out_vectorized =
        (\<lambda>c. (map (\<lambda>row. row ! 6 - row ! 3) c, map (\<lambda>row. [Fin 0]) c))\<rparr>"

text \<open>A straight rod of four nodes (three edges), and one of five nodes (four edges).\<close>

definition rod4 :: "f64 list" where
  "rod4 = map Fin [0, 0, 0, 1, 0, 0, 2, 0, 0, 3, 0, 0]"

definition rod5 :: "f64 list" where
  "rod5 = map Fin [0, 0, 0, 1, 0, 0, 2, 0, 0, 3, 0, 0, 4, 0, 0]"

text \<open>
  A rod of five nodes folded back on its own line: its last edge starts 0.0625 after the
  end of its first edge.
\<close>

definition rod5_near :: "f64 list" where
  "rod5_near = map Fin [0, 0, 0, 1, 0, 0, 3 / 2, 1, 0, 17 / 16, 0, 0, 33 / 16, 0, 0]"

text \<open>
  A rod of five nodes whose first edge ends at the origin and whose last edge starts at
  \<open>x = 0.054\<close> (the double nearest to it): with the sample distance function the distance
  of its one pair is that double.
\<close>

definition rod5_limit :: "f64 list" where
  "rod5_limit =
     map Fin [- 1, 0, 0, 0, 0, 0, 1 / 2, 1, 0,
              7782220156096217 / 144115188075855872, 0, 0, 2, 0, 0]"

section \<open>The values inside \<open>_get_forces_and_hessian\<close>\<close>

text \<open>
  Names for the values the method computes before its validity check, to state what is
  written: the conservative contact terms \<open>(dE_dx, d2E_dx2)\<close>, the aggregate force and
  the aggregate jacobian (contact plus friction when the friction flag is set), and the
  final write of a force batch and a jacobian batch into the shared buffers, with the
  scaling by \<open>contact_stiffness\<close>.
\<close>

definition contact_terms :: "imc \<Rightarrow> contact_points \<Rightarrow> f64 list list \<times> f64 list list list" where
  "contact_terms obj contact_points =
     (case contact_points of
        (es, ids, vs, s_input_vals) \<Rightarrow>
          chain_rule_contact_hess (dd_grads obj) (f_hess_const obj)
            (map (\<lambda>f_grad. f_grad es) (f_grad_funcs obj))
            (transpose (map (\<lambda>s_grad. s_grad s_input_vals) (s_grad_funcs obj)))
            (f_hess_func obj es)
            (map (\<lambda>s_hess. s_hess s_input_vals) (s_hess_funcs obj)))"

definition aggregate_forces :: "imc \<Rightarrow> contact_points \<Rightarrow> f64 list list" where
  "aggregate_forces obj contact_points =
     (case contact_points of
        (es, ids, vs, s_input_vals) \<Rightarrow>
          (let dE_dx = fst (contact_terms obj contact_points) in
           if friction obj \<noteq> 0 then madd dE_dx (get_ffr es vs dE_dx (mu_k obj)) else dE_dx))"

definition aggregate_jacobian :: "imc \<Rightarrow> contact_points \<Rightarrow> f64 list list list" where
  "aggregate_jacobian obj contact_points =
     (case contact_points of
        (es, ids, vs, s_input_vals) \<Rightarrow>
          (let dE_dx = fst (contact_terms obj contact_points);
               d2E_dx2 = snd (contact_terms obj contact_points) in
           if friction obj \<noteq> 0
           then tadd d2E_dx2
                  (chain_rule_friction_jacobian
                     (ffr_jacobian_func obj (get_ffr_jacobian_inputs es vs dE_dx (mu_k obj)))
                     d2E_dx2)
           else d2E_dx2))"

definition write_hess ::
  "imc \<Rightarrow> f64 list list \<Rightarrow> f64 list list list \<Rightarrow> int list list \<Rightarrow> error \<times> imc + imc" where
  "write_hess obj total_forces total_jacobian ids =
     (case jit_py_to_cpp_hess total_forces total_jacobian (forces obj) (hessian obj) ids of
        Inl (e, fs, hs) \<Rightarrow> Inl (e, obj\<lparr>forces := fs, hessian := hs\<rparr>)
      | Inr (fs, hs) \<Rightarrow>
          Inr (obj\<lparr>forces := map (\<lambda>x. x * contact_stiffness obj) fs,
                   hessian := map (map (\<lambda>x. x * contact_stiffness obj)) hs\<rparr>))"

text \<open>
  A batch holds an invalid value when one of its entries is NaN or infinite. The errors
  of the array operations are ValueError and IndexError. \<open>outcome_obj\<close> is the object a
  request leaves behind, replied or aborted.
\<close>

definition invalid2 :: "f64 list list \<Rightarrow> bool" where
  "invalid2 a = list_ex (\<lambda>x. \<not> isfinite x) (concat a)"

definition invalid3 :: "f64 list list list \<Rightarrow> bool" where
  "invalid3 a = list_ex (\<lambda>x. \<not> isfinite x) (concat (concat a))"

definition array_error :: "error \<Rightarrow> bool" where
  "array_error e = (e = ValueError \<or> e = IndexError)"

fun outcome_obj :: "outcome \<Rightarrow> imc" where
  "outcome_obj (Replied srv) = self srv"
| "outcome_obj (Aborted e obj) = obj"

text \<open>
  The active pairs fit the buffers: every pair is two edge ids, each with its six scalars
  inside a buffer of \<open>nv\<close> entries.
\<close>

definition pairs_fit :: "nat \<Rightarrow> int list list \<Rightarrow> bool" where
  "pairs_fit nv ids =
     list_all (\<lambda>pair. length pair = 2 \<and> list_all (\<lambda>e. 0 \<le> e \<and> nat (3 * e + 6) \<le> nv) pair) ids"

section \<open>Sample objects\<close>

text \<open>
  A rod of five nodes whose first edge has length zero and whose last edge starts 0.0625
  after it, on the same line.
\<close>

definition rod5_pinched :: "f64 list" where
  "rod5_pinched = map Fin [0, 0, 0, 0, 0, 0, 1 / 2, 1, 0, 1 / 16, 0, 0, 17 / 16, 0, 0]"

text \<open>
  The control vector with the first-iteration, friction and Hessian flags, and an object
  for a rod of five nodes: radius 0.0625, scale 1, collision limit 0.015625, building blocks
  that return the sample values above for every pair, force buffer and Hessian buffer
  holding values left from before.
\<close>

definition flags :: "real \<Rightarrow> real \<Rightarrow> real \<Rightarrow> f64 list" where
  "flags first_iter fric hess = map Fin [first_iter, fric, 0, 0, 0, hess]"

definition sample_obj :: "f64 list \<Rightarrow> f64 list \<Rightarrow> imc" where
  "sample_obj nd md =
     \<lparr>scale = Fin 1, radius = Fin (1 / 16), num_edges = 4, collision_limit = Fin (1 / 64),
      contact_stiffness = Fin 1, mu_k = Fin (1 / 2), contact_len = Fin (1 / 8),
      dd_grads = sample_dd,
      f_grad_funcs = replicate 6 (\<lambda>es. map (\<lambda>_. replicate 12 (Fin 5)) es),
      f_hess_const = sample_f_hess_const,
      f_hess_func = (\<lambda>es. map (\<lambda>_. replicate 12 (replicate 12 (Fin 1))) es),
      s_grad_funcs = replicate 9 (\<lambda>s. map (\<lambda>_. Fin 1) s) @ replicate 6 (\<lambda>s. map (\<lambda>_. Fin 2) s),
      s_hess_funcs = replicate 15 (\<lambda>s. map (\<lambda>_. replicate 15 (Fin 0)) s),
      ffr_jacobian_func = (\<lambda>inp. map (\<lambda>_. replicate 6 (replicate 24 (Fin 1))) inp),
      friction = 0, ia = 2, indices = [0, 1, 2, 3],
      edges = zeros2 4 6, edge_combos = zeros2 1 12, edge_ids = pair_table 4,
      node_coordinates = nd, velocities = replicate 15 (Fin 0),
      forces = replicate 15 (Fin 7), hessian = replicate 15 (replicate 15 (Fin 1)),
      meta_data = md\<rparr>"

text \<open>
  The sample object in the middle of a request: the friction flag stored, the two scratch
  arrays filled by the detector, and the stiffness, velocity buffer, force buffer and
  Hessian buffer as given.
\<close>

definition work_obj ::
  "f64 list \<Rightarrow> f64 list \<Rightarrow> int \<Rightarrow> f64 \<Rightarrow> f64 list \<Rightarrow> f64 list list \<Rightarrow> imc" where
  "work_obj nd md fric k fs hs =
     (sample_obj nd md)
       \<lparr>contact_stiffness := k, friction := fric,
        edges := map (edge_of nd) [0..3], edge_combos := pair_rows nd 4,
        forces := fs, hessian := hs\<rparr>"

section \<open>Properties\<close>

subsection \<open>Rounding: the binade and the grid of doubles\<close>

lemma rne_floor: "\<lfloor>x\<rfloor> \<le> rne x"
  by (simp add: rne_def Let_def)

lemma rne_ceiling: "rne x \<le> \<lceil>x\<rceil>"
proof (cases "x = of_int \<lfloor>x\<rfloor>")
  case True
  then have "rne x = \<lfloor>x\<rfloor>"
    by (simp add: rne_def Let_def)
  then show ?thesis
    by (simp add: floor_le_ceiling)
next
  case False
  then have "\<lceil>x\<rceil> = \<lfloor>x\<rfloor> + 1"
    by (simp add: ceiling_altdef)
  then show ?thesis
    by (simp add: rne_def Let_def)
qed

lemma rne_0: "rne 0 = 0"
  by (simp add: rne_def)

lemma binade_up_ge: "e \<le> binade_up x e n"
proof (induction n arbitrary: e)
  case 0
  show ?case by simp
next
  case (Suc n)
  have "e + 1 \<le> binade_up x (e + 1) n"
    by (rule Suc.IH)
  then show ?case
    by simp
qed

lemma binade_down_ge: "e - int n \<le> binade_down x e n"
proof (induction n arbitrary: e)
  case 0
  show ?case by simp
next
  case (Suc n)
  have "e - 1 - int n \<le> binade_down x (e - 1) n"
    by (rule Suc.IH)
  then show ?case
    by simp
qed

lemma binade_up_le: "2 powi e \<le> x \<Longrightarrow> 2 powi (binade_up x e n) \<le> x"
  by (induction n arbitrary: e) simp_all

lemma binade_down_le: "e - int n < binade_down x e n \<Longrightarrow> 2 powi (binade_down x e n) \<le> x"
proof (induction n arbitrary: e)
  case 0
  then show ?case by simp
next
  case (Suc n)
  show ?case
  proof (cases "x < 2 powi e")
    case True
    with Suc.prems have "e - 1 - int n < binade_down x (e - 1) n"
      by simp
    then have "2 powi (binade_down x (e - 1) n) \<le> x"
      by (rule Suc.IH)
    with True show ?thesis
      by simp
  next
    case False
    then show ?thesis
      by simp
  qed
qed

lemma binade_up_less: "binade_up x e n < e + int n \<Longrightarrow> x < 2 powi (binade_up x e n + 1)"
proof (induction n arbitrary: e)
  case 0
  then show ?case by simp
next
  case (Suc n)
  show ?case
  proof (cases "2 powi (e + 1) \<le> x")
    case True
    with Suc.prems have "binade_up x (e + 1) n < e + 1 + int n"
      by simp
    then have "x < 2 powi (binade_up x (e + 1) n + 1)"
      by (rule Suc.IH)
    with True show ?thesis
      by simp
  next
    case False
    then show ?thesis
      by simp
  qed
qed

lemma binade_down_less: "x < 2 powi (e + 1) \<Longrightarrow> x < 2 powi (binade_down x e n + 1)"
proof (induction n arbitrary: e)
  case 0
  then show ?case by simp
next
  case (Suc n)
  show ?case
  proof (cases "x < 2 powi e")
    case True
    then have "x < 2 powi (e - 1 + 1)"
      by simp
    then have "x < 2 powi (binade_down x (e - 1) n + 1)"
      by (rule Suc.IH)
    with True show ?thesis
      by simp
  next
    case False
    with Suc.prems show ?thesis
      by simp
  qed
qed

lemma binade_lower: "- 1022 \<le> binade x"
proof (cases "1 \<le> \<bar>x\<bar>")
  case True
  have "0 \<le> binade_up \<bar>x\<bar> 0 1024"
    by (rule binade_up_ge)
  with True show ?thesis
    by (simp add: binade_def)
next
  case False
  have "- 1 - int 1021 \<le> binade_down \<bar>x\<bar> (- 1) 1021"
    by (rule binade_down_ge)
  with False show ?thesis
    by (simp add: binade_def)
qed

lemma binade_normal:
  assumes "- 1022 < binade x"
  shows "2 powi (binade x) \<le> \<bar>x\<bar>"
proof (cases "1 \<le> \<bar>x\<bar>")
  case True
  then have "2 powi 0 \<le> \<bar>x\<bar>"
    by simp
  then have "2 powi (binade_up \<bar>x\<bar> 0 1024) \<le> \<bar>x\<bar>"
    by (rule binade_up_le)
  with True show ?thesis
    by (simp add: binade_def)
next
  case False
  with assms have "- 1 - int 1021 < binade_down \<bar>x\<bar> (- 1) 1021"
    by (simp add: binade_def)
  then have "2 powi (binade_down \<bar>x\<bar> (- 1) 1021) \<le> \<bar>x\<bar>"
    by (rule binade_down_le)
  with False show ?thesis
    by (simp add: binade_def)
qed

lemma binade_upper:
  assumes "\<bar>x\<bar> < 2 powi 1024"
  shows "\<bar>x\<bar> < 2 powi (binade x + 1)"
proof (cases "1 \<le> \<bar>x\<bar>")
  case True
  show ?thesis
  proof (cases "binade_up \<bar>x\<bar> 0 1024 < 0 + int 1024")
    case less: True
    then have "\<bar>x\<bar> < 2 powi (binade_up \<bar>x\<bar> 0 1024 + 1)"
      by (rule binade_up_less)
    with True show ?thesis
      by (simp add: binade_def)
  next
    case False
    moreover have "0 \<le> binade_up \<bar>x\<bar> 0 1024"
      by (rule binade_up_ge)
    ultimately have "(1024::int) \<le> binade_up \<bar>x\<bar> 0 1024"
      by simp
    then have "(2::real) powi 1024 \<le> 2 powi (binade_up \<bar>x\<bar> 0 1024 + 1)"
      by (intro power_int_increasing) simp_all
    with assms True show ?thesis
      by (simp add: binade_def)
  qed
next
  case False
  then have "\<bar>x\<bar> < 2 powi (- 1 + 1)"
    by simp
  then have "\<bar>x\<bar> < 2 powi (binade_down \<bar>x\<bar> (- 1) 1021 + 1)"
    by (rule binade_down_less)
  with False show ?thesis
    by (simp add: binade_def)
qed

lemma powi_less_cancel:
  fixes a b :: int
  assumes "(2::real) powi a < 2 powi b"
  shows "a < b"
proof (rule ccontr)
  assume "\<not> a < b"
  then have "b \<le> a"
    by simp
  then have "(2::real) powi b \<le> 2 powi a"
    by (intro power_int_increasing) simp_all
  with assms show False
    by simp
qed

lemma binade_eq:
  assumes lo: "- 1022 \<le> e" and hi: "e \<le> 1023"
    and ge: "- 1022 < e \<Longrightarrow> 2 powi e \<le> \<bar>x\<bar>" and less: "\<bar>x\<bar> < 2 powi (e + 1)"
  shows "binade x = e"
proof -
  have "(2::real) powi (e + 1) \<le> 2 powi 1024"
    using hi by (intro power_int_increasing) simp_all
  with less have "\<bar>x\<bar> < 2 powi 1024"
    by simp
  then have up: "\<bar>x\<bar> < 2 powi (binade x + 1)"
    by (rule binade_upper)
  have a: "binade x \<le> e"
  proof (cases "- 1022 < binade x")
    case True
    then have "2 powi (binade x) \<le> \<bar>x\<bar>"
      by (rule binade_normal)
    with less have "(2::real) powi (binade x) < 2 powi (e + 1)"
      by simp
    then have "binade x < e + 1"
      by (rule powi_less_cancel)
    then show ?thesis
      by simp
  next
    case False
    with lo show ?thesis
      by simp
  qed
  have b: "e \<le> binade x"
  proof (cases "- 1022 < e")
    case True
    then have "2 powi e \<le> \<bar>x\<bar>"
      by (rule ge)
    with up have "(2::real) powi e < 2 powi (binade x + 1)"
      by simp
    then have "e < binade x + 1"
      by (rule powi_less_cancel)
    then show ?thesis
      by simp
  next
    case False
    with lo have "e = - 1022"
      by simp
    then show ?thesis
      using binade_lower [of x] by simp
  qed
  from a b show ?thesis
    by simp
qed

lemma binade_0: "binade 0 = - 1022"
  by (rule binade_eq) simp_all

lemma round64_0: "round64 0 = Fin 0"
  by (simp add: round64_def Let_def rne_0)

lemma binade_unit: "2 powi (- 1074) \<le> \<bar>z\<bar> \<Longrightarrow> 2 powi (binade z - 52) \<le> \<bar>z\<bar>"
proof (cases "- 1022 < binade z")
  case True
  then have "2 powi (binade z) \<le> \<bar>z\<bar>"
    by (rule binade_normal)
  moreover have "(2::real) powi (binade z - 52) \<le> 2 powi (binade z)"
    by (intro power_int_increasing) simp_all
  ultimately show ?thesis
    by simp
next
  case False
  with binade_lower [of z] have "binade z = - 1022"
    by simp
  moreover assume "2 powi (- 1074) \<le> \<bar>z\<bar>"
  ultimately show ?thesis
    by simp
qed

lemma round64_pos:
  assumes "2 powi (- 1074) \<le> z"
  shows "round64 z = PInf \<or> (\<exists>y. round64 z = Fin y \<and> 0 < y)"
proof -
  define u :: real where "u = 2 powi (binade z - 52)"
  have u: "0 < u"
    by (simp add: u_def)
  have "0 < (2::real) powi (- 1074)"
    by simp
  with assms have z: "0 < z"
    by simp
  with assms have "2 powi (- 1074) \<le> \<bar>z\<bar>"
    by simp
  then have "u \<le> \<bar>z\<bar>"
    unfolding u_def by (rule binade_unit)
  with z u have "1 \<le> z / u"
    by simp
  then have "1 \<le> \<lfloor>z / u\<rfloor>"
    by simp
  then have "1 \<le> rne (z / u)"
    using rne_floor [of "z / u"] by (rule order_trans)
  then have "0 < of_int (rne (z / u)) * u"
    using u by simp
  with z show ?thesis
    by (simp add: round64_def Let_def u_def)
qed

lemma round64_neg:
  assumes "z \<le> - (2 powi (- 1074))"
  shows "round64 z = NInf \<or> (\<exists>y. round64 z = Fin y \<and> y < 0)"
proof -
  define u :: real where "u = 2 powi (binade z - 52)"
  have u: "0 < u"
    by (simp add: u_def)
  have "0 < (2::real) powi (- 1074)"
    by simp
  with assms have z: "z < 0"
    by simp
  with assms have "2 powi (- 1074) \<le> \<bar>z\<bar>"
    by simp
  then have "u \<le> \<bar>z\<bar>"
    unfolding u_def by (rule binade_unit)
  with z u have "z / u \<le> - 1"
    by (simp add: field_simps)
  then have "\<lceil>z / u\<rceil> \<le> - 1"
    by (simp add: ceiling_le_iff)
  with rne_ceiling [of "z / u"] have "rne (z / u) \<le> - 1"
    by (rule order_trans)
  then have "of_int (rne (z / u)) * u < 0"
    using u by (simp add: mult_neg_pos)
  with z show ?thesis
    by (simp add: round64_def Let_def u_def)
qed

lemma round64_grid:
  assumes "round64 x = Fin y"
  shows "\<exists>k::int. y = of_int k * 2 powi (- 1074)"
proof -
  define e where "e = binade x"
  have e: "0 \<le> e + 1022"
    using binade_lower [of x] by (simp add: e_def)
  have "(2::real) powi (e - 52) = 2 powi (e + 1022) * 2 powi (- 1074)"
    using power_int_add [of "2::real" "e + 1022" "- 1074"] by simp
  also have "(2::real) powi (e + 1022) = of_int (2 ^ nat (e + 1022))"
    using e by (simp add: power_int_def)
  finally have u: "(2::real) powi (e - 52) = of_int (2 ^ nat (e + 1022)) * 2 powi (- 1074)" .
  from assms have "y = of_int (rne (x / 2 powi (e - 52))) * 2 powi (e - 52)"
    by (simp add: round64_def Let_def e_def split: if_splits)
  then have "y = of_int (rne (x / 2 powi (e - 52)) * 2 ^ nat (e + 1022)) * 2 powi (- 1074)"
    by (simp add: u)
  then show ?thesis
    by blast
qed

lemma grid_gap:
  assumes a: "round64 a = Fin a" and b: "round64 b = Fin b" and less: "a < b"
  shows "2 powi (- 1074) \<le> b - a"
proof -
  from a obtain i :: int where i: "a = of_int i * 2 powi (- 1074)"
    using round64_grid by blast
  from b obtain j :: int where j: "b = of_int j * 2 powi (- 1074)"
    using round64_grid by blast
  have g: "0 < (2::real) powi (- 1074)"
    by simp
  from less have "of_int i * (2::real) powi (- 1074) < of_int j * 2 powi (- 1074)"
    by (simp only: i j)
  with g have "(of_int i :: real) < of_int j"
    by (simp only: mult_less_cancel_right_pos)
  then have "1 \<le> j - i"
    by simp
  then have "(1::real) \<le> of_int (j - i)"
    by (simp only: of_int_1_le_iff)
  with g have "1 * 2 powi (- 1074) \<le> (of_int (j - i) :: real) * 2 powi (- 1074)"
    by (simp only: mult_le_cancel_right_pos)
  then show ?thesis
    by (simp add: i j algebra_simps)
qed

lemma round64_at:
  assumes "- 1022 \<le> e" and "e \<le> 1023"
    and "- 1022 < e \<Longrightarrow> 2 powi e \<le> \<bar>x\<bar>" and "\<bar>x\<bar> < 2 powi (e + 1)"
  shows "round64 x =
     (if 2 powi 1024 \<le> \<bar>real_of_int (rne (x / 2 powi (e - 52))) * 2 powi (e - 52)\<bar>
      then (if 0 < x then PInf else NInf)
      else Fin (of_int (rne (x / 2 powi (e - 52))) * 2 powi (e - 52)))"
proof -
  have "binade x = e"
    using assms by (rule binade_eq)
  then show ?thesis
    by (simp add: round64_def Let_def)
qed

subsection \<open>Comparisons of rounded differences\<close>

lemma round64_not_nan: "round64 x \<noteq> NaN"
  by (simp add: round64_def Let_def)

lemma isnan_rnd: "isnan (rnd v) = isnan v"
proof (cases v)
  case (Fin x)
  then show ?thesis
    using round64_not_nan [of x] by (cases "round64 x") simp_all
qed simp_all

lemma less_not_nan: "a < b \<Longrightarrow> \<not> isnan a \<and> \<not> isnan (b::f64)"
  by (cases a; cases b) simp_all

lemma f64_linear: "\<not> isnan a \<Longrightarrow> \<not> isnan b \<Longrightarrow> \<not> a < b \<Longrightarrow> b \<le> (a::f64)"
  by (cases a; cases b) simp_all

lemma isnan_shift: "isnan (cl - Fin x) = isnan cl"
  by (cases cl) (simp_all add: minus_f64_def)

lemma threshold_le:
  assumes "c < rnd (cl - Fin y)" and "\<not> c < rnd (cl - Fin x)"
  shows "rnd (cl - Fin x) \<le> c"
proof -
  from assms(1) have "\<not> isnan c" and "\<not> isnan (rnd (cl - Fin y))"
    using less_not_nan by blast+
  then have "\<not> isnan c" and "\<not> isnan (rnd (cl - Fin x))"
    by (simp_all add: isnan_rnd isnan_shift)
  with assms(2) show ?thesis
    by (intro f64_linear)
qed

lemma threshold_le_len:
  assumes "c < cl" and "\<not> c < rnd (cl - Fin x)"
  shows "rnd (cl - Fin x) \<le> c"
proof -
  from assms(1) have "\<not> isnan c" and "\<not> isnan cl"
    using less_not_nan by blast+
  then have "\<not> isnan c" and "\<not> isnan (rnd (cl - Fin x))"
    by (simp_all add: isnan_rnd isnan_shift)
  with assms(2) show ?thesis
    by (intro f64_linear)
qed

lemma rnd_diff_Fin:
  assumes a: "round64 a = Fin a" and b: "round64 b = Fin b"
  shows "(Fin 0 < round64 (a - b)) = (b < a)" and "(round64 (a - b) < Fin 0) = (a < b)"
proof -
  consider "b < a" | "a = b" | "a < b"
    by linarith
  then have "(Fin 0 < round64 (a - b)) = (b < a) \<and> (round64 (a - b) < Fin 0) = (a < b)"
  proof cases
    case 1
    with b a have "2 powi (- 1074) \<le> a - b"
      by (rule grid_gap)
    then have "round64 (a - b) = PInf \<or> (\<exists>y. round64 (a - b) = Fin y \<and> 0 < y)"
      by (rule round64_pos)
    with 1 show ?thesis
      by auto
  next
    case 2
    then show ?thesis
      by (simp add: round64_0)
  next
    case 3
    with a b have "2 powi (- 1074) \<le> b - a"
      by (rule grid_gap)
    then have "a - b \<le> - (2 powi (- 1074))"
      by simp
    then have "round64 (a - b) = NInf \<or> (\<exists>y. round64 (a - b) = Fin y \<and> y < 0)"
      by (rule round64_neg)
    with 3 show ?thesis
      by auto
  qed
  then show "(Fin 0 < round64 (a - b)) = (b < a)" and "(round64 (a - b) < Fin 0) = (a < b)"
    by simp_all
qed

lemma rnd_diff_pos:
  assumes "is_f64 a" and "is_f64 b"
  shows "(Fin 0 < rnd (a - b)) = (b < a)"
proof (cases a)
  case fa: (Fin x)
  show ?thesis
  proof (cases b)
    case (Fin y)
    with fa assms show ?thesis
      by (simp add: is_f64_def minus_f64_def rnd_diff_Fin)
  qed (simp_all add: fa minus_f64_def)
qed (cases b; simp add: minus_f64_def)+

lemma rnd_diff_neg:
  assumes "is_f64 a" and "is_f64 b"
  shows "(rnd (a - b) < Fin 0) = (a < b)"
proof (cases a)
  case fa: (Fin x)
  show ?thesis
  proof (cases b)
    case (Fin y)
    with fa assms show ?thesis
      by (simp add: is_f64_def minus_f64_def rnd_diff_Fin)
  qed (simp_all add: fa minus_f64_def)
qed (cases b; simp add: minus_f64_def)+

subsection \<open>The literals of the stiffness controller\<close>

lemma lit_0005: "round64 (1 / 200) = Fin (5764607523034235 / 1152921504606846976)"
  using round64_at [of "- 8" "1 / 200"] by (simp add: rne_def Let_def)

lemma lit_0004: "round64 (1 / 250) = Fin (1152921504606847 / 288230376151711744)"
  using round64_at [of "- 8" "1 / 250"] by (simp add: rne_def Let_def)

lemma lit_0002: "round64 (1 / 500) = Fin (1152921504606847 / 576460752303423488)"
  using round64_at [of "- 9" "1 / 500"] by (simp add: rne_def Let_def)

lemma lit_0001: "round64 (1 / 1000) = Fin (1152921504606847 / 1152921504606846976)"
  using round64_at [of "- 10" "1 / 1000"] by (simp add: rne_def Let_def)

lemma lit_0999: "round64 (999 / 1000) = Fin (8998192055486251 / 9007199254740992)"
  using round64_at [of "- 1" "999 / 1000"] by (simp add: rne_def Let_def)

lemma lit_1010: "round64 (101 / 100) = Fin (4548635623644201 / 4503599627370496)"
  using round64_at [of "0" "101 / 100"] by (simp add: rne_def Let_def)

lemma lit_1005: "round64 (201 / 200) = Fin (1131529406376837 / 1125899906842624)"
  using round64_at [of "0" "201 / 200"] by (simp add: rne_def Let_def)

lemma lit_1003: "round64 (1003 / 1000) = Fin (4517110426252607 / 4503599627370496)"
  using round64_at [of "0" "1003 / 1000"] by (simp add: rne_def Let_def)

lemma lit_1001: "round64 (1001 / 1000) = Fin (2254051613498933 / 2251799813685248)"
  using round64_at [of "0" "1001 / 1000"] by (simp add: rne_def Let_def)

subsection \<open>Slice assignment\<close>

lemma broadcast_exact:
  "length src = m \<Longrightarrow> list_all (\<lambda>r. length r = n) src \<Longrightarrow> broadcast_to m n src = Inr src"
  by (auto simp: broadcast_to_def list_all_iff intro: map_idI elim: list.pred_mono_strong)

lemma broadcast_one:
  "length a = n \<Longrightarrow> broadcast_to m n [a] = Inr (replicate m a)"
  by (cases "m = 1") (auto simp: broadcast_to_def)

lemma setitem_empty:
  assumes "slice_idx (length buf) r1 \<le> slice_idx (length buf) r0"
    and "broadcast_to 0 (c1 - c0) src = Inr vals"
  shows "np_setitem buf r0 r1 c0 c1 src = Inr buf"
  using assms by (simp add: np_setitem_def Let_def)

lemma slice_idx_nonneg: "0 \<le> k \<Longrightarrow> nat k \<le> len \<Longrightarrow> slice_idx len k = nat k"
  by (simp add: slice_idx_def)

lemma setitem_block:
  assumes "0 \<le> ri" "0 \<le> add" "nat ri + nat add \<le> length buf"
    and "broadcast_to (nat add) (c1 - c0) src = Inr vals"
  shows "np_setitem buf ri (ri + add) c0 c1 src =
           Inr (take (nat ri) buf
                @ map2 (\<lambda>row v. take c0 row @ v @ drop c1 row) (take (nat add) (drop (nat ri) buf)) vals
                @ drop (nat ri + nat add) buf)"
proof -
  have a: "slice_idx (length buf) ri = nat ri"
    using assms by (simp add: slice_idx_nonneg)
  have b: "slice_idx (length buf) (ri + add) = nat ri + nat add"
    using assms by (simp add: slice_idx_nonneg nat_add_distrib)
  show ?thesis
    using assms(4) by (simp add: np_setitem_def Let_def a b)
qed

lemma map2_const_left: "length xs = length ys \<Longrightarrow> map2 (\<lambda>x y. f y) xs ys = map f ys"
  by (induct rule: list_induct2) auto

lemma map2_replicate_right: "length xs = k \<Longrightarrow> map2 f xs (replicate k a) = map (\<lambda>x. f x a) xs"
  by (simp add: zip_replicate2)

lemma map2_cong_left:
  "(\<And>x y. x \<in> set xs \<Longrightarrow> f x y = g x y) \<Longrightarrow> map2 f xs ys = map2 g xs ys"
  by (auto dest: set_zip_leftD)

lemma one_block:
  assumes ri: "0 \<le> ri" and add: "0 \<le> add" and fit: "nat ri + nat add \<le> length buf"
    and wA: "length a = w" and lenB: "length bs = nat add"
    and wB: "list_all (\<lambda>r. length r = w) bs"
    and wbuf: "list_all (\<lambda>r. length r = 2 * w) buf"
  shows "\<exists>b1. np_setitem buf ri (ri + add) 0 w [a] = Inr b1 \<and>
           np_setitem b1 ri (ri + add) w (2 * w) bs =
             Inr (take (nat ri) buf @ map (\<lambda>b. a @ b) bs @ drop (nat ri + nat add) buf)"
proof -
  let ?mid = "take (nat add) (drop (nat ri) buf)"
  let ?b1 = "take (nat ri) buf @ map (\<lambda>row. a @ drop w row) ?mid @ drop (nat ri + nat add) buf"
  have lmid: "length ?mid = nat add"
    using fit by simp
  have bc1: "broadcast_to (nat add) (w - 0) [a] = Inr (replicate (nat add) a)"
    using wA by (simp add: broadcast_one)
  have s1: "np_setitem buf ri (ri + add) 0 w [a] = Inr ?b1"
    using setitem_block [OF ri add fit bc1] lmid
    by (simp add: map2_replicate_right)
  have lb1: "length ?b1 = length buf"
    using fit by simp
  have fit1: "nat ri + nat add \<le> length ?b1"
    using fit lb1 by simp
  have bc2: "broadcast_to (nat add) (2 * w - w) bs = Inr bs"
    using lenB wB by (simp add: broadcast_exact)
  have t1: "take (nat ri) ?b1 = take (nat ri) buf"
    using fit by simp
  have d1: "drop (nat ri + nat add) ?b1 = drop (nat ri + nat add) buf"
    using fit lmid by simp
  have m1: "take (nat add) (drop (nat ri) ?b1) = map (\<lambda>row. a @ drop w row) ?mid"
    using fit lmid by simp
  have rows: "\<And>x. x \<in> set ?mid \<Longrightarrow> length x = 2 * w"
    using wbuf by (auto simp: list_all_iff dest: in_set_takeD in_set_dropD)
  have "map2 (\<lambda>row v. take w row @ v @ drop (2 * w) row) (map (\<lambda>row. a @ drop w row) ?mid) bs
          = map2 (\<lambda>row v. a @ v) ?mid bs"
    unfolding zip_map1 map_map
    using rows wA by (auto dest: set_zip_leftD)
  also have "\<dots> = map (\<lambda>b. a @ b) bs"
    using lmid lenB by (simp add: map2_const_left)
  finally have m2: "map2 (\<lambda>row v. take w row @ v @ drop (2 * w) row)
      (map (\<lambda>row. a @ drop w row) ?mid) bs = map (\<lambda>b. a @ b) bs" .
  have s2: "np_setitem ?b1 ri (ri + add) w (2 * w) bs =
      Inr (take (nat ri) buf @ map (\<lambda>b. a @ b) bs @ drop (nat ri + nat add) buf)"
    unfolding setitem_block [OF ri add fit1 bc2] t1 d1 m1 m2 ..
  from s1 s2 show ?thesis by blast
qed

lemma block_rows_step:
  "0 \<le> a \<Longrightarrow> block_rows A B (a + 1) = block_rows A B a @ map (\<lambda>b. A a @ b) (B a)"
  by (simp add: block_rows_def upto_rec2)

lemma block_rows_split:
  "0 \<le> a \<Longrightarrow> a \<le> b \<Longrightarrow>
     block_rows A B b = block_rows A B a @ concat (map (\<lambda>i. map (\<lambda>b. A i @ b) (B i)) [a..b - 1])"
  unfolding block_rows_def
  using upto_split1 [of 0 a "b - 1"] by (cases "a = b") auto

lemma block_rows_length_mono:
  "0 \<le> a \<Longrightarrow> a \<le> b \<Longrightarrow> length (block_rows A B a) \<le> length (block_rows A B b)"
  using block_rows_split [of a b A B] by simp

lemma fill_blocks_empty:
  assumes "\<And>i. i \<in> set js \<Longrightarrow> length (A i) = w \<and> B i = []"
  shows "fill_blocks n gap A B w js ri [] = Inr []"
  using assms
proof (induction js arbitrary: ri)
  case Nil
  show ?case by simp
next
  case (Cons i js)
  have a: "length (A i) = w" and b: "B i = []"
    using Cons.prems by simp_all
  have s1: "np_setitem [] r0 r1 0 w [A i] = Inr []" for r0 r1
    by (rule setitem_empty) (simp_all add: slice_idx_def broadcast_one a)
  have s2: "np_setitem [] r0 r1 w (2 * w) (B i) = Inr []" for r0 r1
    by (rule setitem_empty) (simp_all add: slice_idx_def broadcast_exact b)
  show ?case
    using Cons.IH Cons.prems by (simp add: s1 s2 [unfolded b] Let_def)
qed

lemma fill_blocks_tail:
  assumes n: "2 \<le> n"
    and wA: "\<And>i. 0 \<le> i \<Longrightarrow> i < n \<Longrightarrow> length (A i) = w"
    and eB: "\<And>i. n - 2 \<le> i \<Longrightarrow> i < n \<Longrightarrow> B i = []"
  shows "fill_blocks n 2 A B w [n - 2..n - 1] (int (length buf)) buf = Inr buf"
proof -
  let ?P = "length buf"
  have l: "[n - 2..n - 1] = [n - 2, n - 1]"
    by (simp add: upto_rec1)
  have wa1: "length (A (n - 2)) = w" and wa2: "length (A (n - 1)) = w"
    using n by (simp_all add: wA)
  have b1: "B (n - 2) = []" and b2: "B (n - 1) = []"
    using n by (simp_all add: eB)
  have e1: "slice_idx ?P (int ?P + (n - (n - 2) - (2 + 1))) \<le> slice_idx ?P (int ?P)"
    by (auto simp add: slice_idx_def)
  have e2: "slice_idx ?P (int ?P + (n - (n - 2) - (2 + 1)) + (n - (n - 1) - (2 + 1)))
      \<le> slice_idx ?P (int ?P + (n - (n - 2) - (2 + 1)))"
    by (auto simp add: slice_idx_def)
  have s1: "np_setitem buf (int ?P) (int ?P + (n - (n - 2) - (2 + 1))) 0 w [A (n - 2)] = Inr buf"
    by (rule setitem_empty [OF e1]) (simp add: broadcast_one wa1)
  have s2: "np_setitem buf (int ?P) (int ?P + (n - (n - 2) - (2 + 1))) w (2 * w) [] = Inr buf"
    by (rule setitem_empty [OF e1]) (simp add: broadcast_exact)
  have s3: "np_setitem buf (int ?P + (n - (n - 2) - (2 + 1)))
      (int ?P + (n - (n - 2) - (2 + 1)) + (n - (n - 1) - (2 + 1))) 0 w [A (n - 1)] = Inr buf"
    by (rule setitem_empty [OF e2]) (simp add: broadcast_one wa2)
  have s4: "np_setitem buf (int ?P + (n - (n - 2) - (2 + 1)))
      (int ?P + (n - (n - 2) - (2 + 1)) + (n - (n - 1) - (2 + 1))) w (2 * w) [] = Inr buf"
    by (rule setitem_empty [OF e2]) (simp add: broadcast_exact)
  show ?thesis
    unfolding l fill_blocks.simps Let_def b1 b2 s1 s2 sum.case s3 s4 ..
qed

lemma fill_blocks_from:
  assumes n: "2 \<le> n"
    and wA: "\<And>i. 0 \<le> i \<Longrightarrow> i < n \<Longrightarrow> length (A i) = w"
    and lenB: "\<And>i. 0 \<le> i \<Longrightarrow> i < n \<Longrightarrow> length (B i) = nat (n - i - 3)"
    and wB: "\<And>i. 0 \<le> i \<Longrightarrow> i < n \<Longrightarrow> list_all (\<lambda>r. length r = w) (B i)"
  shows "0 \<le> a \<Longrightarrow> a \<le> n - 2 \<Longrightarrow> k = nat (n - 2 - a) \<Longrightarrow>
     list_all (\<lambda>r. length r = 2 * w) buf \<Longrightarrow>
     length buf = length (block_rows A B n) \<Longrightarrow>
     take (length (block_rows A B a)) buf = block_rows A B a \<Longrightarrow>
     fill_blocks n 2 A B w [a..n - 1] (int (length (block_rows A B a))) buf
       = Inr (block_rows A B n)"
proof (induction k arbitrary: a buf)
  case 0
  then have a: "a = n - 2" by simp
  have eB: "B i = []" if "n - 2 \<le> i" "i < n" for i
    using lenB [of i] that n by simp
  have "block_rows A B n = block_rows A B (n - 2)"
    using block_rows_split [of "n - 2" n A B] n eB by (simp add: upto_rec1)
  with 0 a have buf: "buf = block_rows A B n" by simp
  show ?case
    unfolding a using fill_blocks_tail [where buf = buf, OF n wA eB] buf
    \<open>block_rows A B n = block_rows A B (n - 2)\<close> by simp
next
  case (Suc k)
  let ?ri = "int (length (block_rows A B a))"
  let ?add = "n - a - 3"
  let ?new = "map (\<lambda>b. A a @ b) (B a)"
  let ?buf' = "take (nat ?ri) buf @ ?new @ drop (nat ?ri + nat ?add) buf"
  from Suc.prems have a0: "0 \<le> a" and an: "a < n - 2" by simp_all
  have add0: "0 \<le> ?add" using an by simp
  have lB: "length (B a) = nat ?add" using lenB [of a] a0 an by simp
  have step: "block_rows A B (a + 1) = block_rows A B a @ ?new"
    using a0 by (rule block_rows_step)
  have "length (block_rows A B (a + 1)) \<le> length (block_rows A B n)"
    using a0 an by (intro block_rows_length_mono) simp_all
  then have fit: "nat ?ri + nat ?add \<le> length buf"
    using Suc.prems(5) step lB by simp
  have wa: "length (A a) = w" using wA [of a] a0 an by simp
  have wb: "list_all (\<lambda>r. length r = w) (B a)" using wB [of a] a0 an by simp
  obtain b1 where s1: "np_setitem buf ?ri (?ri + ?add) 0 w [A a] = Inr b1"
    and s2: "np_setitem b1 ?ri (?ri + ?add) w (2 * w) (B a) = Inr ?buf'"
    using one_block [OF _ add0 fit wa lB wb Suc.prems(4)] by auto
  have wnew: "list_all (\<lambda>r. length r = 2 * w) ?new"
    using wa wb by (auto simp: list_all_iff)
  have w': "list_all (\<lambda>r. length r = 2 * w) ?buf'"
    using Suc.prems(4) wnew by (auto simp: list_all_iff dest: in_set_takeD in_set_dropD)
  have l': "length ?buf' = length (block_rows A B n)"
    using fit lB Suc.prems(5) by simp
  have t': "take (length (block_rows A B (a + 1))) ?buf' = block_rows A B (a + 1)"
    using Suc.prems(6) fit lB step
    by (simp add: min_absorb2)
  have ri': "?ri + ?add = int (length (block_rows A B (a + 1)))"
    using step lB add0 by simp
  have IH: "fill_blocks n 2 A B w [a + 1..n - 1] (int (length (block_rows A B (a + 1)))) ?buf'
      = Inr (block_rows A B n)"
    using Suc.prems(3) a0 an by (intro Suc.IH w' l' t') simp_all
  have l: "[a..n - 1] = a # [a + 1..n - 1]"
    using an by (simp add: upto_rec1)
  have add_eq: "n - a - (2 + 1) = ?add" by simp
  show ?case
    unfolding l fill_blocks.simps Let_def add_eq ri' s1 [unfolded ri'] sum.case s2 [unfolded ri'] IH ..
qed

lemma block_rows_0: "block_rows A B 0 = []"
  by (simp add: block_rows_def)

lemma fill_blocks_all:
  assumes n: "0 \<le> n"
    and wA: "\<And>i. 0 \<le> i \<Longrightarrow> i < n \<Longrightarrow> length (A i) = w"
    and lenB: "\<And>i. 0 \<le> i \<Longrightarrow> i < n \<Longrightarrow> length (B i) = nat (n - i - 3)"
    and wB: "\<And>i. 0 \<le> i \<Longrightarrow> i < n \<Longrightarrow> list_all (\<lambda>r. length r = w) (B i)"
    and wbuf: "list_all (\<lambda>r. length r = 2 * w) buf"
    and len: "length buf = length (block_rows A B n)"
  shows "fill_blocks n 2 A B w [0..n - 1] 0 buf = Inr (block_rows A B n)"
proof (cases "2 \<le> n")
  case True
  show ?thesis
    using fill_blocks_from [where a = 0 and k = "nat (n - 2)" and buf = buf, OF True wA lenB wB] True wbuf len
    by (simp add: block_rows_0)
next
  case False
  have e: "length (A i) = w \<and> B i = []" if "i \<in> set [0..n - 1]" for i
    using that False wA [of i] lenB [of i] by simp
  have "block_rows A B n = []"
    using e by (simp add: block_rows_def)
  with len have "buf = []" by simp
  then show ?thesis
    using fill_blocks_empty [where js = "[0..n - 1]" and ri = 0 and n = n and gap = 2, OF e] \<open>block_rows A B n = []\<close>
    by simp
qed

lemma length_upto_int: "length [a..b] = nat (b - a + 1)"
  by simp

lemma drop_upto_0: "0 \<le> k \<Longrightarrow> drop (nat k) [0..n - 1] = [k..n - 1]"
proof (cases "k \<le> n - 1")
  case True
  assume "0 \<le> k"
  then have "[0..n - 1] = [0..k - 1] @ [k..n - 1]"
    using True by (intro upto_split1) simp_all
  moreover have "length [0..k - 1] = nat k"
    using \<open>0 \<le> k\<close> by simp
  ultimately show ?thesis by simp
next
  case False
  then show ?thesis by simp
qed

lemma slice_from_range:
  "0 \<le> k \<Longrightarrow> py_slice_from (py_range 0 n) k = [k..n - 1]"
proof -
  assume k: "0 \<le> k"
  show ?thesis
  proof (cases "k \<le> n")
    case True
    then have "slice_idx (length [0..n - 1]) k = nat k"
      using k by (simp add: slice_idx_def)
    then show ?thesis
      using k by (simp add: py_slice_from_def py_range_def drop_upto_0)
  next
    case False
    then show ?thesis
      using k by (simp add: py_slice_from_def py_range_def slice_idx_def)
  qed
qed

lemma fill_edge_ids_blocks:
  "fill_edge_ids n gap idx is ri ids =
     fill_blocks n gap (\<lambda>i. [i]) (\<lambda>i. column (py_slice_from idx (i + gap + 1))) 1 is ri ids"
  by (induction "is" arbitrary: ri ids) (simp_all add: Let_def split: sum.splits)

subsection \<open>The edge-pair table\<close>

lemma pair_table_blocks:
  "pair_table n = block_rows (\<lambda>i. [i]) (\<lambda>i. column (py_slice_from (py_range 0 n) (i + 2 + 1))) n"
proof -
  have "map (\<lambda>j. [i, j]) [i + 3..n - 1]
      = map (\<lambda>b. [i] @ b) (column (py_slice_from (py_range 0 n) (i + 2 + 1)))"
    if "i \<in> set [0..n - 1]" for i
    using that by (simp add: slice_from_range column_def add.assoc)
  then show ?thesis
    unfolding pair_table_def block_rows_def by (metis (no_types, lifting) map_cong)
qed

lemma foldl_count:
  "foldl (\<lambda>c j. if P j then c else c + 1) (c::int) xs = c + int (length (filter (\<lambda>j. \<not> P j) xs))"
  by (induction xs arbitrary: c) simp_all

lemma foldl_add_int:
  "foldl (\<lambda>c i. c + f i) (c::int) xs = c + sum_list (map f xs)"
  by (induction xs arbitrary: c) simp_all

lemma filter_far: "filter (\<lambda>j. \<not> (j - 2 \<le> i \<and> i < j + 2 + 1)) [i..n - 1] = [i + 3..n - 1]"
proof (cases "i + 3 \<le> n - 1")
  case True
  then have s: "[i..n - 1] = [i..i + 3 - 1] @ [i + 3..n - 1]"
    by (intro upto_split1) simp_all
  have "filter (\<lambda>j. \<not> (j - 2 \<le> i \<and> i < j + 2 + 1)) [i..i + 3 - 1] = []"
    by (auto simp: filter_empty_conv)
  moreover have "filter (\<lambda>j. \<not> (j - 2 \<le> i \<and> i < j + 2 + 1)) [i + 3..n - 1] = [i + 3..n - 1]"
    by (auto simp: filter_id_conv)
  ultimately show ?thesis
    unfolding s by simp
next
  case False
  then have "filter (\<lambda>j. \<not> (j - 2 \<le> i \<and> i < j + 2 + 1)) [i..n - 1] = []"
    by (auto simp: filter_empty_conv)
  with False show ?thesis by simp
qed

lemma count_edge_combos_sum:
  "count_edge_combos n 2 = (\<Sum>i\<leftarrow>[0..n - 1]. max 0 (n - i - 3))"
proof -
  have inner: "foldl (\<lambda>c j. if j - 2 \<le> i \<and> i < j + 2 + 1 then c else c + 1) c [i..n - 1]
      = c + max 0 (n - i - 3)" for i c
    unfolding foldl_count filter_far by simp
  show ?thesis
    unfolding count_edge_combos_def py_range_def inner foldl_add_int by simp
qed

lemma length_pair_table:
  "int (length (pair_table n)) = (\<Sum>i\<leftarrow>[0..n - 1]. max 0 (n - i - 3))"
proof -
  have "int (length (concat (map (\<lambda>i. map (\<lambda>j. [i, j]) [i + 3..n - 1]) xs)))
      = (\<Sum>i\<leftarrow>xs. max 0 (n - i - 3))" for xs
    by (induction xs) simp_all
  then show ?thesis by (simp add: pair_table_def)
qed

lemma count_edge_combos_length: "count_edge_combos n 2 = int (length (pair_table n))"
  by (simp only: count_edge_combos_sum length_pair_table)

lemma init_edge_ids_table:
  assumes n: "0 \<le> n"
  shows "init_edge_ids n = Inr (pair_table n)"
proof -
  let ?A = "\<lambda>i::int. [i]"
  let ?B = "\<lambda>i. column (py_slice_from (py_range 0 n) (i + 2 + 1))"
  let ?buf = "replicate (length (pair_table n)) (replicate 2 (0::int))"
  have z: "np_zeros 0 (count_edge_combos n 2) 2 = Inr ?buf"
    by (simp add: np_zeros_def count_edge_combos_length)
  have B: "?B i = map (\<lambda>j. [j]) [i + 3..n - 1]" if "0 \<le> i" for i
    using that by (simp add: slice_from_range column_def add.assoc)
  have "fill_blocks n 2 ?A ?B 1 [0..n - 1] 0 ?buf = Inr (block_rows ?A ?B n)"
  proof (rule fill_blocks_all [OF n])
    show "length [i] = 1" for i :: int by simp
    show "length (?B i) = nat (n - i - 3)" if "0 \<le> i" for i
      using B [OF that] by simp
    show "list_all (\<lambda>r. length r = 1) (?B i)" if "0 \<le> i" for i
      using B [OF that] by (simp add: list_all_iff)
    show "list_all (\<lambda>r. length r = 2 * 1) ?buf"
      by (simp add: list_all_iff)
    show "length ?buf = length (block_rows ?A ?B n)"
      unfolding pair_table_blocks [symmetric] by simp
  qed
  then show ?thesis
    unfolding init_edge_ids_def Let_def z sum.case fill_edge_ids_blocks py_range_def [of 0 n, symmetric]
    by (simp add: pair_table_blocks py_range_def)
qed

lemma pair_table_set:
  "set (pair_table n) = {[i, j] | i j. 0 \<le> i \<and> i < j \<and> j < n \<and> 2 < j - i}"
proof -
  have "[i, j] \<in> set (pair_table n)" if "0 \<le> i" "j < n" "2 < j - i" for i j
  proof -
    have "i \<in> set [0..n - 1]" "j \<in> set [i + 3..n - 1]"
      using that by simp_all
    then have "[i, j] \<in> set (map (\<lambda>j. [i, j]) [i + 3..n - 1])"
      and "map (\<lambda>j. [i, j]) [i + 3..n - 1]
           \<in> set (map (\<lambda>i. map (\<lambda>j. [i, j]) [i + 3..n - 1]) [0..n - 1])"
      by (simp_all only: set_map image_eqI)
    then show ?thesis
      unfolding pair_table_def set_concat by (rule UN_I [rotated])
  qed
  moreover have "\<exists>i j. r = [i, j] \<and> 0 \<le> i \<and> i < j \<and> j < n \<and> 2 < j - i"
    if "r \<in> set (pair_table n)" for r
    using that by (auto simp: pair_table_def)
  ultimately show ?thesis by blast
qed

lemma sorted_pairs_from:
  "sorted_wrt (<) xs \<Longrightarrow>
     sorted_wrt lex_less (concat (map (\<lambda>i. map (\<lambda>j. [i, j]) [i + 3..n - 1]) xs))"
proof (induction xs)
  case Nil
  show ?case by simp
next
  case (Cons i xs)
  have "sorted_wrt (\<lambda>a b. lex_less [i, a] [i, b]) [i + 3..n - 1]"
    using sorted_wrt_upto [of "i + 3" "n - 1"]
    by (rule sorted_wrt_mono_rel [rotated]) (simp add: lex_less_def)
  then have a: "sorted_wrt lex_less (map (\<lambda>j. [i, j]) [i + 3..n - 1])"
    by (simp add: sorted_wrt_map)
  have b: "sorted_wrt lex_less (concat (map (\<lambda>i. map (\<lambda>j. [i, j]) [i + 3..n - 1]) xs))"
    using Cons by simp
  have c: "lex_less r s" if "r \<in> set (map (\<lambda>j. [i, j]) [i + 3..n - 1])"
    "s \<in> set (concat (map (\<lambda>i. map (\<lambda>j. [i, j]) [i + 3..n - 1]) xs))" for r s
    using that Cons.prems by (auto simp: lex_less_def)
  show ?case
    using a b c by (simp add: sorted_wrt_append)
qed

lemma pair_table_sorted: "sorted_wrt lex_less (pair_table n)"
  unfolding pair_table_def by (rule sorted_pairs_from) simp

lemma lex_less_irrefl: "\<not> lex_less r r"
  by (simp add: lex_less_def)

lemma pair_table_distinct: "distinct (pair_table n)"
  using pair_table_sorted [of n] lex_less_irrefl
  by (metis distinct_conv_nth less_irrefl sorted_wrt_iff_nth_less nat_neq_iff)

subsection \<open>Shapes of batches\<close>

lemma shapeI: "length m = n \<Longrightarrow> (\<And>r. r \<in> set m \<Longrightarrow> length r = w) \<Longrightarrow> shape n w m"
  by (simp add: shape_def list_all_iff)

lemma shape_length: "shape n w m \<Longrightarrow> length m = n"
  by (simp add: shape_def)

lemma shape_row: "shape n w m \<Longrightarrow> r \<in> set m \<Longrightarrow> length r = w"
  by (simp add: shape_def list_all_iff)

lemma shape_nth: "shape n w m \<Longrightarrow> p < n \<Longrightarrow> length (m ! p) = w"
  by (simp add: shape_def list_all_length)

lemma shape_cols: "shape n k m \<Longrightarrow> b \<le> k \<Longrightarrow> shape n (b - a) (cols a b m)"
  by (auto simp: shape_def cols_def list_all_iff)

lemma shape_cols_from: "shape n k m \<Longrightarrow> shape n (k - a) (cols_from a m)"
  by (auto simp: shape_def cols_from_def list_all_iff)

lemma shape_map2:
  assumes "shape n w a" "shape n w b" "\<And>x y. length x = w \<Longrightarrow> length y = w \<Longrightarrow> length (f x y) = w'"
  shows "shape n w' (map2 f a b)"
proof (rule shapeI)
  show "length (map2 f a b) = n"
    using assms(1,2) by (simp add: shape_def)
  fix r assume "r \<in> set (map2 f a b)"
  then obtain x y where "(x, y) \<in> set (zip a b)" "r = f x y"
    by auto
  then have "x \<in> set a" "y \<in> set b"
    by (auto dest: set_zip_leftD set_zip_rightD)
  then show "length r = w'"
    using assms \<open>r = f x y\<close> by (simp add: shape_def list_all_iff)
qed

lemma shape_msub: "shape n w a \<Longrightarrow> shape n w b \<Longrightarrow> shape n w (msub a b)"
  unfolding msub_def by (rule shape_map2) (auto simp: vsub_def)

lemma shape_madd: "shape n w a \<Longrightarrow> shape n w b \<Longrightarrow> shape n w (madd a b)"
  unfolding madd_def by (rule shape_map2) (auto simp: vadd_def)

lemma shape_mscale: "shape n w a \<Longrightarrow> shape n w (mscale c a)"
  by (auto simp: shape_def mscale_def vscale_def list_all_iff)

lemma shape_mneg: "shape n w a \<Longrightarrow> shape n w (mneg a)"
  by (auto simp: shape_def mneg_def list_all_iff)

lemma shape_div_col: "shape n w a \<Longrightarrow> length s = n \<Longrightarrow> shape n w (div_col a s)"
  by (auto simp: shape_def div_col_def list_all_iff dest: set_zip_leftD)

lemma shape_col_times: "shape n w a \<Longrightarrow> length s = n \<Longrightarrow> shape n w (col_times s a)"
  by (auto simp: shape_def col_times_def list_all_iff dest: set_zip_rightD)

lemma shape_times_col: "shape n w a \<Longrightarrow> length s = n \<Longrightarrow> shape n w (times_col a s)"
  by (auto simp: shape_def times_col_def list_all_iff dest: set_zip_leftD)

lemma length_row_sq_sums: "length (row_sq_sums a) = length a"
  by (simp add: row_sq_sums_def)

lemma length_mask_sign: "length (mask_sign d) = length d"
  by (simp add: mask_sign_def Let_def)

subsection \<open>Friction force\<close>

lemma ffr_assemble:
  "map2 (\<lambda>a b. a @ a @ b @ b) (mscale h X) (mscale h (mneg X))
     = map (\<lambda>x. vscale h x @ vscale h x @ vscale h (map uminus x) @ vscale h (map uminus x)) X"
  by (simp add: mscale_def mneg_def zip_map1 zip_map2 zip_same_conv_map)

lemma batch_lengths:
  "length (msub a b) = min (length a) (length b)"
  "length (madd a b) = min (length a) (length b)"
  "length (mscale c a) = length a"
  "length (mneg a) = length a"
  "length (div_col a s) = min (length a) (length s)"
  "length (col_times s a) = min (length s) (length a)"
  "length (times_col a s) = min (length a) (length s)"
  "length (cols i j m) = length m"
  "length (cols_from i m) = length m"
  by (simp_all add: msub_def madd_def mscale_def mneg_def div_col_def col_times_def times_col_def
      cols_def cols_from_def)

lemma get_ffr_rows:
  assumes e: "shape n 12 es" and v: "shape n 12 vs" and f: "shape n 12 fs"
  shows "\<exists>X. get_ffr es vs fs mu
            = map (\<lambda>x. vscale (Fin 0.50) x @ vscale (Fin 0.50) x
                        @ vscale (Fin 0.50) (map uminus x) @ vscale (Fin 0.50) (map uminus x)) X
          \<and> shape n 3 X"
proof -
  have c: "shape n 3 (cols 0 3 m)" "shape n 3 (cols 3 6 m)" "shape n 3 (cols 6 9 m)"
    "shape n 3 (cols_from 9 m)" if "shape n 12 m" for m :: "f64 list list"
    using shape_cols [OF that, of 3 0] shape_cols [OF that, of 6 3] shape_cols [OF that, of 9 6]
      shape_cols_from [OF that, of 9] by simp_all
  note sh = c [OF e] c [OF v] c [OF f]
  show ?thesis
    unfolding get_ffr_def Let_def ffr_assemble
    apply (rule exI, rule conjI, rule refl)
    apply (intro shape_mscale shape_msub shape_times_col shape_col_times shape_div_col sh)
    apply (simp_all add: length_mask_sign length_row_sq_sums batch_lengths
        shape_length [OF e] shape_length [OF v] shape_length [OF f])
    done
qed

lemma times_uminus_right: "Fin c * (- x) = - (Fin c * x)"
  by (cases x) (simp_all add: inf_of_def)

lemma vscale_uminus: "vscale (Fin c) (map uminus x) = map uminus (vscale (Fin c) x)"
  by (simp add: vscale_def times_uminus_right)

lemma sum_list_finite:
  "list_all isfinite xs \<Longrightarrow> \<exists>r. sum_list xs = Fin r \<and> sum_list (map uminus xs) = Fin (- r)"
proof (induction xs)
  case Nil
  show ?case by (simp add: zero_f64_def)
next
  case (Cons x xs)
  then obtain r where r: "sum_list xs = Fin r" "sum_list (map uminus xs) = Fin (- r)"
    by auto
  from Cons.prems obtain y where "x = Fin y"
    by (cases x) simp_all
  with r show ?case by simp
qed

lemma sum_list_action_reaction:
  assumes "list_all isfinite (a @ a @ map uminus a @ map uminus a)"
  shows "sum_list (a @ a @ map uminus a @ map uminus a) = Fin 0"
proof -
  from assms have "list_all isfinite a" by simp
  then obtain r where "sum_list a = Fin r" "sum_list (map uminus a) = Fin (- r)"
    using sum_list_finite by blast
  then show ?thesis by simp
qed

subsection \<open>C9: the friction force on the two edges of a pair\<close>

text \<open>
  C9, as the code has it. For every batch of shape \<open>(n, 12)\<close>, the friction force of
  each pair gives one 3-vector to both endpoints of the first edge and its negation to
  both endpoints of the second edge. When the twelve entries of the pair are finite, they
  sum to zero; a pair with an edge of length zero has twelve NaN entries, whose sum is
  NaN.
\<close>

theorem get_ffr_action_reaction:
  assumes e: "shape n 12 es" and v: "shape n 12 vs" and f: "shape n 12 fs"
    and p: "p < n"
  shows "length (get_ffr es vs fs mu) = n
     \<and> length (get_ffr es vs fs mu ! p) = 12
     \<and> take 3 (drop 3 (get_ffr es vs fs mu ! p))
         = take 3 (get_ffr es vs fs mu ! p)
     \<and> take 3 (drop 6 (get_ffr es vs fs mu ! p))
         = map uminus (take 3 (get_ffr es vs fs mu ! p))
     \<and> drop 9 (get_ffr es vs fs mu ! p)
         = map uminus (take 3 (get_ffr es vs fs mu ! p))
     \<and> (list_all isfinite (get_ffr es vs fs mu ! p)
          \<longrightarrow> sum_list (get_ffr es vs fs mu ! p) = Fin 0)"
proof -
  obtain X where X: "get_ffr es vs fs mu
      = map (\<lambda>x. vscale (Fin 0.50) x @ vscale (Fin 0.50) x
                  @ vscale (Fin 0.50) (map uminus x) @ vscale (Fin 0.50) (map uminus x)) X"
    and sh: "shape n 3 X"
    using get_ffr_rows [OF e v f] by blast
  define a where "a = vscale (Fin 0.50) (X ! p)"
  have lX: "length X = n" using sh by (rule shape_length)
  have la: "length a = 3"
    using shape_nth [OF sh p] by (simp add: a_def vscale_def)
  have row: "get_ffr es vs fs mu ! p = a @ a @ map uminus a @ map uminus a"
    using p lX by (simp add: X a_def vscale_uminus)
  show ?thesis
    unfolding row using la sum_list_action_reaction [of a] by (simp add: X lX)
qed

theorem get_ffr_action_reaction_witness:
  "shape 1 12 sample_edges \<and> shape 1 12 sample_velocities \<and> shape 1 12 sample_forces
   \<and> take 3 (get_ffr sample_edges sample_velocities sample_forces (Fin (1 / 2)) ! 0)
       = [Fin (1 / 2), Fin 0, Fin (- (1 / 2))]
   \<and> list_all isfinite (get_ffr sample_edges sample_velocities sample_forces (Fin (1 / 2)) ! 0)
   \<and> drop 9 (get_ffr sample_edges sample_velocities sample_forces (Fin (1 / 2)) ! 0)
       = map uminus (take 3 (get_ffr sample_edges sample_velocities sample_forces (Fin (1 / 2)) ! 0))
   \<and> sum_list (get_ffr sample_edges sample_velocities sample_forces (Fin (1 / 2)) ! 0) = Fin 0"
proof -
  have s: "shape 1 12 sample_edges" "shape 1 12 sample_velocities" "shape 1 12 sample_forces"
    by (simp_all add: shape_def sample_edges_def sample_velocities_def sample_forces_def)
  have g: "get_ffr sample_edges sample_velocities sample_forces (Fin (1 / 2))
      = [[Fin (1 / 2), Fin 0, Fin (- (1 / 2)), Fin (1 / 2), Fin 0, Fin (- (1 / 2)),
          Fin (- (1 / 2)), Fin 0, Fin (1 / 2), Fin (- (1 / 2)), Fin 0, Fin (1 / 2)]]"
    by (simp add: get_ffr_def sample_edges_def sample_velocities_def sample_forces_def
        cols_def cols_from_def Let_def div_col_def msub_def vsub_def row_sq_sums_def madd_def
        vadd_def mscale_def vscale_def mask_sign_def dot_def col_times_def times_col_def
        mneg_def minus_f64_def feq_def)
  have fin: "list_all isfinite (get_ffr sample_edges sample_velocities sample_forces (Fin (1 / 2)) ! 0)"
    by (simp add: g)
  show ?thesis
    using get_ffr_action_reaction [OF s, of 0 "Fin 0.5"] s fin by (simp add: g)
qed

text \<open>
  The sum is not zero for every batch: with the first edge collapsed to a point, its unit
  tangent is \<open>0 / 0\<close>, every entry of the pair is NaN, and so is the sum.
\<close>

theorem get_ffr_point_edge_counterexample:
  "shape 1 12 point_edges \<and> shape 1 12 sample_velocities \<and> shape 1 12 sample_forces
   \<and> get_ffr point_edges sample_velocities sample_forces (Fin (1 / 2)) ! 0 = replicate 12 NaN
   \<and> sum_list (get_ffr point_edges sample_velocities sample_forces (Fin (1 / 2)) ! 0) = NaN
   \<and> sum_list (get_ffr point_edges sample_velocities sample_forces (Fin (1 / 2)) ! 0) \<noteq> Fin 0"
proof -
  have g: "get_ffr point_edges sample_velocities sample_forces (Fin (1 / 2)) = [replicate 12 NaN]"
    by (simp add: get_ffr_def point_edges_def sample_velocities_def sample_forces_def
        cols_def cols_from_def Let_def div_col_def msub_def vsub_def row_sq_sums_def madd_def
        vadd_def mscale_def vscale_def mask_sign_def dot_def col_times_def times_col_def
        mneg_def minus_f64_def feq_def inf_of_def numeral_eq_Suc)
  have s: "shape 1 12 point_edges" "shape 1 12 sample_velocities" "shape 1 12 sample_forces"
    by (simp_all add: shape_def point_edges_def sample_velocities_def sample_forces_def)
  have "sum_list (replicate 12 NaN) = NaN"
    by (simp add: numeral_eq_Suc)
  with s show ?thesis
    by (simp add: g)
qed

subsection \<open>Entries of sums and products of batches\<close>



lemma foldl_madd_shape:
  assumes "\<And>i. i \<in> set js \<Longrightarrow> shape n w (T i)"
  shows "shape n w a \<Longrightarrow> shape n w (foldl (\<lambda>a i. madd a (T i)) a js)"
  using assms by (induction js arbitrary: a) (simp_all add: shape_madd)





lemma shape_zeros2: "shape n w (zeros2 n w)"
  by (simp add: zeros2_def shape_def list_all_iff)




subsection \<open>C6: the chain rule of the contact force\<close>



subsection \<open>What a request leaves unchanged\<close>

lemma detect_collisions_frame:
  assumes "detect_collisions u obj = Inr (obj1, ids, cd)"
  shows "forces obj1 = forces obj" "hessian obj1 = hessian obj" "edge_ids obj1 = edge_ids obj"
    "contact_stiffness obj1 = contact_stiffness obj" "meta_data obj1 = meta_data obj"
    "scale obj1 = scale obj" "contact_len obj1 = contact_len obj"
    "node_coordinates obj1 = node_coordinates obj" "velocities obj1 = velocities obj"
  using assms by (auto simp: detect_collisions_def split: sum.splits prod.splits)

lemma get_forces_frame:
  assumes "get_forces obj cp = Inr obj1"
  shows "contact_stiffness obj1 = contact_stiffness obj" "edge_ids obj1 = edge_ids obj"
    "hessian obj1 = hessian obj" "meta_data obj1 = meta_data obj" "scale obj1 = scale obj"
    "contact_len obj1 = contact_len obj"
  using assms
  by (auto simp: get_forces_def Let_def split: prod.splits sum.splits if_splits)

lemma get_forces_and_hessian_frame:
  assumes "get_forces_and_hessian obj cp = Inr obj1"
  shows "contact_stiffness obj1 = contact_stiffness obj" "edge_ids obj1 = edge_ids obj"
    "meta_data obj1 = meta_data obj" "scale obj1 = scale obj"
    "contact_len obj1 = contact_len obj"
  using assms
  by (auto simp: get_forces_and_hessian_def Let_def split: prod.splits sum.splits)

lemma contact_step_result:
  assumes "contact_step u obj first_iter hess ids vel prev = Inr (obj2, vel2, cd)"
  shows "contact_stiffness obj2
      = (if first_iter \<noteq> 0
         then update_contact_stiffness (contact_len obj) (contact_stiffness obj) cd prev
         else contact_stiffness obj)"
    and "\<exists>combos fo. jit_prepare_edges (min_dist_f_out_vectorized u) ids (node_coordinates obj)
            = Inr (combos, cd, fo)"
    and "edge_ids obj2 = edge_ids obj"
proof -
  define obj1 where "obj1 = (if first_iter \<noteq> 0 then update_stiffness obj cd prev else obj)"
  from assms obtain combos fo v where
    pe: "jit_prepare_edges (min_dist_f_out_vectorized u) ids (node_coordinates obj)
           = Inr (combos, cd, fo)"
    and gf: "(if hess = 0 then get_forces obj1 (combos, ids, v, fo)
              else get_forces_and_hessian obj1 (combos, ids, v, fo)) = Inr obj2"
    unfolding contact_step_def Let_def obj1_def
    by (auto split: sum.splits prod.splits option.splits)
  have k: "contact_stiffness obj2 = contact_stiffness obj1" and i: "edge_ids obj2 = edge_ids obj1"
    using gf get_forces_frame(1,2) [of obj1 "(combos, ids, v, fo)" obj2]
      get_forces_and_hessian_frame(1,2) [of obj1 "(combos, ids, v, fo)" obj2]
    by (auto split: if_splits)
  show "contact_stiffness obj2
      = (if first_iter \<noteq> 0
         then update_contact_stiffness (contact_len obj) (contact_stiffness obj) cd prev
         else contact_stiffness obj)"
    unfolding k by (simp add: obj1_def update_stiffness_def)
  show "\<exists>combos fo. jit_prepare_edges (min_dist_f_out_vectorized u) ids (node_coordinates obj)
            = Inr (combos, cd, fo)"
    using pe by blast
  show "edge_ids obj2 = edge_ids obj"
    unfolding i by (simp add: obj1_def update_stiffness_def)
qed

lemma serve_request_Replied:
  assumes r: "serve_request u srv = Replied srv1"
  obtains hess first_iter fric obj4 ids cd obj7 vel cd1 where
    "py_int (meta_data (self srv) ! 5) = Inr hess"
    "py_int (meta_data (self srv) ! 0) = Inr first_iter"
    "py_int (meta_data (self srv) ! 1) = Inr fric"
    "detect_stage u srv (begin_request (self srv) fric) first_iter = Inr (obj4, Some ids, cd)"
    "ids \<noteq> [] \<Longrightarrow>
       contact_step u (reset_buffers obj4 hess) first_iter hess ids (loc_velocities srv) (last_cd srv)
       = Inr (obj7, vel, cd1)"
    "ids = [] \<Longrightarrow> obj7 = reset_buffers obj4 hess \<and> vel = loc_velocities srv \<and> cd1 = cd"
    "srv1 = \<lparr>self = obj7\<lparr>meta_data := (meta_data obj7)[4 := cd1 / scale obj7]\<rparr>,
             loc_edge_ids = Some ids, loc_velocities = vel, closest_distance = cd1,
             last_cd = (if first_iter \<noteq> 0 then cd1 else last_cd srv)\<rparr>"
proof -
  obtain hess where h: "py_int (meta_data (self srv) ! 5) = Inr hess"
    using r by (cases "py_int (meta_data (self srv) ! 5)") (simp_all add: serve_request_def Let_def)
  obtain first_iter where f: "py_int (meta_data (self srv) ! 0) = Inr first_iter"
    using r h by (cases "py_int (meta_data (self srv) ! 0)") (simp_all add: serve_request_def Let_def)
  obtain fric where c: "py_int (meta_data (self srv) ! 1) = Inr fric"
    using r h f by (cases "py_int (meta_data (self srv) ! 1)") (simp_all add: serve_request_def Let_def)
  note r0 = r [unfolded serve_request_def Let_def h f c sum.case]
  obtain obj4 ids_opt cd where
    d: "detect_stage u srv (begin_request (self srv) fric) first_iter = Inr (obj4, ids_opt, cd)"
    using r0 by (cases "detect_stage u srv (begin_request (self srv) fric) first_iter")
      (auto split: prod.splits)
  note r1 = r0 [unfolded d sum.case prod.case]
  obtain ids where i: "ids_opt = Some ids"
    using r1 by (cases ids_opt) simp_all
  note r2 = r1 [unfolded i option.case]
  define con where "con = (if length ids \<noteq> 0
      then contact_step u (reset_buffers obj4 hess) first_iter hess ids (loc_velocities srv)
             (last_cd srv)
      else Inr (reset_buffers obj4 hess, loc_velocities srv, cd))"
  obtain obj7 vel cd1 where k: "con = Inr (obj7, vel, cd1)"
    using r2 unfolding con_def [symmetric] by (cases con) (auto split: prod.splits)
  have s1: "srv1 = \<lparr>self = obj7\<lparr>meta_data := (meta_data obj7)[4 := cd1 / scale obj7]\<rparr>,
             loc_edge_ids = Some ids, loc_velocities = vel, closest_distance = cd1,
             last_cd = (if first_iter \<noteq> 0 then cd1 else last_cd srv)\<rparr>"
    using r2 unfolding con_def [symmetric] k by simp
  have k1: "contact_step u (reset_buffers obj4 hess) first_iter hess ids (loc_velocities srv)
      (last_cd srv) = Inr (obj7, vel, cd1)" if "ids \<noteq> []"
    using k that unfolding con_def by simp
  have k0: "obj7 = reset_buffers obj4 hess \<and> vel = loc_velocities srv \<and> cd1 = cd" if "ids = []"
    using k that unfolding con_def by simp
  show ?thesis
    using that [OF h f c d [unfolded i] k1 k0 s1] by blast
qed

lemma begin_request_frame:
  "forces (begin_request obj fric) = forces obj"
  "hessian (begin_request obj fric) = hessian obj"
  "contact_stiffness (begin_request obj fric) = contact_stiffness obj"
  "contact_len (begin_request obj fric) = contact_len obj"
  "edge_ids (begin_request obj fric) = edge_ids obj"
  "scale (begin_request obj fric) = scale obj"
  "node_coordinates (begin_request obj fric) = map (\<lambda>x. x * scale obj) (node_coordinates obj)"
  "velocities (begin_request obj fric) = velocities obj"
  by (simp_all add: begin_request_def Let_def)

lemma detect_stage_frame:
  assumes "detect_stage u srv obj first_iter = Inr (obj1, ids_opt, cd)"
  shows "forces obj1 = forces obj" "hessian obj1 = hessian obj"
    "contact_stiffness obj1 = contact_stiffness obj" "contact_len obj1 = contact_len obj"
    "edge_ids obj1 = edge_ids obj" "scale obj1 = scale obj"
    "node_coordinates obj1 = node_coordinates obj"
    "first_iter = 0 \<Longrightarrow> ids_opt = loc_edge_ids srv \<and> cd = closest_distance srv"
  using assms
  by (auto simp: detect_stage_def Let_def split: if_splits sum.splits prod.splits
      dest: detect_collisions_frame)

lemma reset_buffers_frame:
  "forces (reset_buffers obj hess) = replicate (length (forces obj)) (Fin 0)"
  "hessian (reset_buffers obj hess)
     = (if hess \<noteq> 0 then map (\<lambda>row. replicate (length row) (Fin 0)) (hessian obj)
        else hessian obj)"
  "contact_stiffness (reset_buffers obj hess) = contact_stiffness obj"
  "contact_len (reset_buffers obj hess) = contact_len obj"
  "edge_ids (reset_buffers obj hess) = edge_ids obj"
  "scale (reset_buffers obj hess) = scale obj"
  "node_coordinates (reset_buffers obj hess) = node_coordinates obj"
  by (simp_all add: reset_buffers_def Let_def map_replicate_const)

subsection \<open>C3: a request with no active pair\<close>

text \<open>
  C3, as the code has it. If the active contact set of a request is empty, then after the
  request is served the force buffer is zero in every entry, whatever it held before; the
  Hessian buffer is zero in every entry when the Hessian is requested, and it is left as
  it was when the Hessian is not requested.
\<close>

theorem zero_contact_request:
  assumes r: "serve_request u srv = Replied srv1"
    and e: "loc_edge_ids srv1 = Some []"
    and h: "py_int (meta_data (self srv) ! 5) = Inr hess"
  shows "forces (self srv1) = replicate (length (forces (self srv))) (Fin 0)
     \<and> (hess \<noteq> 0 \<longrightarrow>
          hessian (self srv1) = map (\<lambda>row. replicate (length row) (Fin 0)) (hessian (self srv)))
     \<and> (hess = 0 \<longrightarrow> hessian (self srv1) = hessian (self srv))"
proof -
  from r obtain hess1 first_iter fric obj4 ids cd obj7 vel cd1 where
    h1: "py_int (meta_data (self srv) ! 5) = Inr hess1"
    and d: "detect_stage u srv (begin_request (self srv) fric) first_iter = Inr (obj4, Some ids, cd)"
    and k0: "ids = [] \<Longrightarrow> obj7 = reset_buffers obj4 hess1 \<and> vel = loc_velocities srv \<and> cd1 = cd"
    and s1: "srv1 = \<lparr>self = obj7\<lparr>meta_data := (meta_data obj7)[4 := cd1 / scale obj7]\<rparr>,
             loc_edge_ids = Some ids, loc_velocities = vel, closest_distance = cd1,
             last_cd = (if first_iter \<noteq> 0 then cd1 else last_cd srv)\<rparr>"
    by (rule serve_request_Replied) blast
  have hh: "hess1 = hess" using h h1 by simp
  have ids: "ids = []" using e s1 by simp
  have o7: "obj7 = reset_buffers obj4 hess" using k0 ids hh by simp
  have f4: "forces obj4 = forces (self srv)" and h4: "hessian obj4 = hessian (self srv)"
    using detect_stage_frame(1,2) [OF d] by (simp_all add: begin_request_frame)
  show ?thesis
    unfolding s1 o7 by (simp add: reset_buffers_frame f4 h4)
qed

subsection \<open>C2: when the stiffness controller runs\<close>

text \<open>
  C2, as the code has it. On a request with the first-iteration flag set and a non-empty
  active set, the stiffness controller runs once, on the closest distance of the active
  pairs (the one \<open>_prepare_edges\<close> computes for them in this request) against the
  distance recorded at the previous first iteration. On a request with the flag unset, or
  with an empty active set, \<open>contact_stiffness\<close> is unchanged.
\<close>

theorem stiffness_controller_runs:
  assumes r: "serve_request u srv = Replied srv1"
    and f: "py_int (meta_data (self srv) ! 0) = Inr first_iter"
    and i: "loc_edge_ids srv1 = Some ids"
  shows "contact_stiffness (self srv1)
       = (if first_iter \<noteq> 0 \<and> ids \<noteq> []
          then update_contact_stiffness (contact_len (self srv)) (contact_stiffness (self srv))
                 (closest_distance srv1) (last_cd srv)
          else contact_stiffness (self srv))
     \<and> (ids \<noteq> [] \<longrightarrow>
          (\<exists>combos fo.
             jit_prepare_edges (min_dist_f_out_vectorized u) ids
               (map (\<lambda>x. x * scale (self srv)) (node_coordinates (self srv)))
             = Inr (combos, closest_distance srv1, fo)))"
proof -
  from r obtain hess first_iter1 fric obj4 ids1 cd obj7 vel cd1 where
    f1: "py_int (meta_data (self srv) ! 0) = Inr first_iter1"
    and d: "detect_stage u srv (begin_request (self srv) fric) first_iter1 = Inr (obj4, Some ids1, cd)"
    and k1: "ids1 \<noteq> [] \<Longrightarrow>
       contact_step u (reset_buffers obj4 hess) first_iter1 hess ids1 (loc_velocities srv)
         (last_cd srv) = Inr (obj7, vel, cd1)"
    and k0: "ids1 = [] \<Longrightarrow> obj7 = reset_buffers obj4 hess \<and> vel = loc_velocities srv \<and> cd1 = cd"
    and s1: "srv1 = \<lparr>self = obj7\<lparr>meta_data := (meta_data obj7)[4 := cd1 / scale obj7]\<rparr>,
             loc_edge_ids = Some ids1, loc_velocities = vel, closest_distance = cd1,
             last_cd = (if first_iter1 \<noteq> 0 then cd1 else last_cd srv)\<rparr>"
    by (rule serve_request_Replied) blast
  have ff: "first_iter1 = first_iter" using f f1 by simp
  have ii: "ids1 = ids" using i s1 by simp
  have c4: "contact_stiffness obj4 = contact_stiffness (self srv)"
    and l4: "contact_len obj4 = contact_len (self srv)"
    and n4: "node_coordinates obj4 = map (\<lambda>x. x * scale (self srv)) (node_coordinates (self srv))"
    using detect_stage_frame(3,4,7) [OF d] by (simp_all add: begin_request_frame)
  show ?thesis
  proof (cases "ids = []")
    case True
    then show ?thesis
      using k0 ii unfolding s1 by (simp add: reset_buffers_frame c4)
  next
    case False
    note cs = contact_step_result [OF k1 [unfolded ii ff, OF False]]
    show ?thesis
      using False cs(1,2) unfolding s1
      by (simp add: reset_buffers_frame c4 l4 n4)
  qed
qed

subsection \<open>The detector\<close>

lemma length_edge_of:
  "0 \<le> i \<Longrightarrow> nat (3 * i + 6) \<le> length nd \<Longrightarrow> length (edge_of nd i) = 6"
  by (auto simp: edge_of_def py_slice_def Let_def slice_idx_def nat_add_distrib nat_mult_distrib)

lemma np_setrow_exact:
  "0 \<le> i \<Longrightarrow> nat i < length a \<Longrightarrow> length v = length (a ! nat i) \<Longrightarrow>
     np_setrow a i v = Inr (a[nat i := v])"
  by (simp add: np_setrow_def Let_def)

lemma fill_edges_prefix:
  assumes nd: "nat (3 * n + 3) \<le> length nd"
  shows "0 \<le> a \<Longrightarrow> a \<le> n \<Longrightarrow> k = nat (n - a) \<Longrightarrow> length es = nat n \<Longrightarrow>
     list_all (\<lambda>r. length r = 6) es \<Longrightarrow>
     fill_edges nd [a..n - 1] es = Inr (take (nat a) es @ map (edge_of nd) [a..n - 1])"
proof (induction k arbitrary: a es)
  case 0
  then show ?case by simp
next
  case (Suc k)
  from Suc.prems have a: "0 \<le> a" "a < n" by simp_all
  have l: "[a..n - 1] = a # [a + 1..n - 1]"
    using a by (simp add: upto_rec1)
  have le: "length (edge_of nd a) = 6"
    using a nd by (intro length_edge_of) simp_all
  have row: "length (es ! nat a) = 6"
    using Suc.prems a by (simp add: list_all_length)
  have s: "np_setrow es a (edge_of nd a) = Inr (es[nat a := edge_of nd a])"
    using a Suc.prems le row by (intro np_setrow_exact) simp_all
  have w: "list_all (\<lambda>r. length r = 6) (es[nat a := edge_of nd a])"
    using Suc.prems(5) le by (auto simp: list_all_iff dest!: set_update_subset_insert [THEN subsetD])
  have IH: "fill_edges nd [a + 1..n - 1] (es[nat a := edge_of nd a])
      = Inr (take (nat (a + 1)) (es[nat a := edge_of nd a]) @ map (edge_of nd) [a + 1..n - 1])"
    using Suc.prems a w by (intro Suc.IH) simp_all
  have t: "take (nat (a + 1)) (es[nat a := edge_of nd a]) = take (nat a) es @ [edge_of nd a]"
    using a Suc.prems(4) by (simp add: nat_add_distrib take_Suc_conv_app_nth)
  show ?case
    unfolding l fill_edges.simps edge_of_def [symmetric] s sum.case IH t by simp
qed

lemma fill_edges_all:
  assumes "0 \<le> n" "nat (3 * n + 3) \<le> length nd" "shape (nat n) 6 es"
  shows "fill_edges nd (py_range 0 n) es = Inr (map (edge_of nd) [0..n - 1])"
  using fill_edges_prefix [OF assms(2), of 0 "nat n" es] assms
  by (simp add: py_range_def shape_def)

lemma fill_edge_combos_blocks:
  "fill_edge_combos n gap es js ri combos =
     fill_blocks n gap (\<lambda>i. es ! nat i) (\<lambda>i. py_slice_from es (i + gap + 1)) 6 js ri combos"
  by (induction js arbitrary: ri combos) (simp_all add: Let_def split: sum.splits)

lemma slice_from_edges:
  assumes "0 \<le> k" "0 \<le> n"
  shows "py_slice_from (map f [0..n - 1]) k = map f [k..n - 1]"
proof -
  have "py_slice_from (map f [0..n - 1]) k = map f (py_slice_from [0..n - 1] k)"
    by (simp add: py_slice_from_def drop_map)
  then show ?thesis
    using assms by (simp add: slice_from_range [unfolded py_range_def])
qed

lemma pair_rows_blocks:
  assumes n: "0 \<le> n"
  shows "pair_rows nd n
     = block_rows (\<lambda>i. map (edge_of nd) [0..n - 1] ! nat i)
         (\<lambda>i. py_slice_from (map (edge_of nd) [0..n - 1]) (i + 2 + 1)) n"
proof -
  let ?F = "\<lambda>i. map (\<lambda>j. edge_of nd i @ edge_of nd j) [i + 3..n - 1]"
  let ?G = "\<lambda>i. map (\<lambda>b. map (edge_of nd) [0..n - 1] ! nat i @ b)
                  (py_slice_from (map (edge_of nd) [0..n - 1]) (i + 2 + 1))"
  have lhs: "pair_rows nd n = concat (map ?F [0..n - 1])"
    by (simp add: pair_rows_def pair_table_def map_concat comp_def)
  have rhs: "block_rows (\<lambda>i. map (edge_of nd) [0..n - 1] ! nat i)
         (\<lambda>i. py_slice_from (map (edge_of nd) [0..n - 1]) (i + 2 + 1)) n = concat (map ?G [0..n - 1])"
    by (simp only: block_rows_def)
  have "?F i = ?G i" if "i \<in> set [0..n - 1]" for i
  proof -
    have i: "0 \<le> i" "i < n" using that by simp_all
    have a: "map (edge_of nd) [0..n - 1] ! nat i = edge_of nd i"
      using i by simp
    have b: "py_slice_from (map (edge_of nd) [0..n - 1]) (i + 2 + 1)
        = map (edge_of nd) [i + 3..n - 1]"
      using i n by (simp add: slice_from_edges add.assoc)
    show ?thesis
      unfolding a b by (simp add: comp_def)
  qed
  then have "map ?F [0..n - 1] = map ?G [0..n - 1]"
    by (rule map_cong [OF refl])
  then show ?thesis
    unfolding lhs rhs by (rule arg_cong)
qed

lemma fill_edge_combos_all:
  assumes n: "0 \<le> n" and nd: "nat (3 * n + 3) \<le> length nd"
    and c: "shape (length (pair_table n)) 12 combos"
  shows "fill_edge_combos n 2 (map (edge_of nd) [0..n - 1]) (py_range 0 n) 0 combos
       = Inr (pair_rows nd n)"
proof -
  let ?es = "map (edge_of nd) [0..n - 1]"
  let ?A = "\<lambda>i. ?es ! nat i"
  let ?B = "\<lambda>i. py_slice_from ?es (i + 2 + 1)"
  have e6: "length (edge_of nd i) = 6" if "0 \<le> i" "i < n" for i
    using that nd by (intro length_edge_of) simp_all
  have B: "?B i = map (edge_of nd) [i + 3..n - 1]" if "0 \<le> i" for i
    using that n by (simp add: slice_from_edges add.assoc)
  have "fill_blocks n 2 ?A ?B 6 [0..n - 1] 0 combos = Inr (block_rows ?A ?B n)"
  proof (rule fill_blocks_all [OF n])
    show "length (?A i) = 6" if "0 \<le> i" "i < n" for i
      using that e6 by simp
    show "length (?B i) = nat (n - i - 3)" if "0 \<le> i" for i
      using B [OF that] by simp
    show "list_all (\<lambda>r. length r = 6) (?B i)" if "0 \<le> i" for i
      using B [OF that] e6 that by (simp add: list_all_iff)
    show "list_all (\<lambda>r. length r = 2 * 6) combos"
      using c by (simp add: shape_def)
    show "length combos = length (block_rows ?A ?B n)"
      using c unfolding pair_rows_blocks [OF n, symmetric]
      by (simp add: shape_def pair_rows_def)
  qed
  then show ?thesis
    unfolding fill_edge_combos_blocks py_range_def pair_rows_blocks [OF n] by simp
qed

lemma zip_as_map: "length xs = length ys \<Longrightarrow> zip xs ys = map (\<lambda>r. (xs ! r, ys ! r)) [0..<length ys]"
  by (rule nth_equalityI) simp_all

lemma take_rows_where:
  assumes l: "length ds = length ids"
  shows "take_rows ids (np_where (map P ds)) = Inr (map fst (filter (\<lambda>(r, d). P d) (zip ids ds)))"
proof -
  have w: "np_where (map P ds) = filter (\<lambda>r. P (ds ! r)) [0..<length ds]"
    unfolding np_where_def by (rule filter_cong) simp_all
  have ok: "list_all (\<lambda>r. r < length ids) (filter (\<lambda>r. P (ds ! r)) [0..<length ds])"
    using l by (simp add: list_all_iff)
  have "map fst (filter (\<lambda>(r, d). P d) (zip ids ds))
      = map (\<lambda>r. ids ! r) (filter (\<lambda>r. P (ds ! r)) [0..<length ds])"
    unfolding zip_as_map [OF l [symmetric]] filter_map by (simp add: comp_def)
  then show ?thesis
    unfolding take_rows_def w using ok by simp
qed

lemma f64_le_refl: "\<not> isnan a \<Longrightarrow> a \<le> (a::f64)"
  by (cases a) simp_all

lemma f64_le_trans: "a \<le> b \<Longrightarrow> b \<le> c \<Longrightarrow> a \<le> (c::f64)"
  by (cases a; cases b; cases c) simp_all

lemma fmin_cases:
  "\<not> isnan a \<Longrightarrow> \<not> isnan b \<Longrightarrow>
     (fmin a b = a \<or> fmin a b = b) \<and> fmin a b \<le> a \<and> fmin a b \<le> b \<and> \<not> isnan (fmin a b)"
  by (cases a; cases b) (auto simp: fmin_def)

lemma foldl_fmin_least:
  "\<not> isnan x \<Longrightarrow> list_all (\<lambda>d. \<not> isnan d) xs \<Longrightarrow>
     foldl fmin x xs \<in> set (x # xs) \<and> list_all (\<lambda>d. foldl fmin x xs \<le> d) (x # xs)
     \<and> \<not> isnan (foldl fmin x xs)"
proof (induction xs arbitrary: x)
  case Nil
  then show ?case by (simp add: f64_le_refl)
next
  case (Cons y ys)
  then have y: "\<not> isnan y" and ys: "list_all (\<lambda>d. \<not> isnan d) ys" by simp_all
  note m = fmin_cases [OF Cons.prems(1) y]
  from m have nm: "\<not> isnan (fmin x y)" by simp
  note IH = Cons.IH [OF nm ys]
  from IH have le: "foldl fmin (fmin x y) ys \<le> fmin x y" by simp
  have "foldl fmin (fmin x y) ys \<le> x" "foldl fmin (fmin x y) ys \<le> y"
    using le m f64_le_trans by blast+
  moreover have "foldl fmin (fmin x y) ys \<in> set (x # y # ys)"
    using IH m by auto
  ultimately show ?case
    using IH by simp
qed

lemma np_min_least:
  assumes "xs \<noteq> []" "list_all (\<lambda>d. \<not> isnan d) xs"
  shows "\<exists>m. np_min xs = Inr m \<and> m \<in> set xs \<and> list_all (\<lambda>d. m \<le> d) xs"
proof (cases xs)
  case Nil
  with assms show ?thesis by simp
next
  case (Cons x rest)
  with assms foldl_fmin_least [of x rest] show ?thesis
    by (simp add: np_min_def)
qed

lemma pair_table_nonempty: "4 \<le> n \<Longrightarrow> pair_table n \<noteq> []"
proof -
  assume "4 \<le> n"
  then have "[0, 3] \<in> set (pair_table n)"
    unfolding pair_table_set by auto
  then show ?thesis by auto
qed

lemma pair_table_small: "n \<le> 3 \<Longrightarrow> pair_table n = []"
  by (simp add: pair_table_def)

lemma jit_detect_collisions_unfold:
  assumes es: "shape (length es) 6 es"
    and c: "shape (length (pair_table (int (length es)))) 12 combos"
    and nd: "length node_data = nat (3 * int (length es) + 3)"
    and md: "length (mdv (pair_rows node_data (int (length es))))
             = length (pair_table (int (length es)))"
  shows "jit_detect_collisions mdv es combos (pair_table (int (length es))) climit node_data clen 2
     = (case np_min (mdv (pair_rows node_data (int (length es)))) of
          Inl e \<Rightarrow> Inl e
        | Inr closest \<Rightarrow>
            Inr (map (edge_of node_data) [0..int (length es) - 1],
                 pair_rows node_data (int (length es)),
                 map fst (filter (\<lambda>(r, d). rnd (d - clen) < climit)
                           (zip (pair_table (int (length es)))
                                (mdv (pair_rows node_data (int (length es)))))),
                 closest))"
proof -
  let ?n = "int (length es)"
  have a: "fill_edges node_data (py_range 0 ?n) es = Inr (map (edge_of node_data) [0..?n - 1])"
    using es nd by (intro fill_edges_all) simp_all
  have b: "fill_edge_combos ?n 2 (map (edge_of node_data) [0..?n - 1]) (py_range 0 ?n) 0 combos
      = Inr (pair_rows node_data ?n)"
    using c nd by (intro fill_edge_combos_all) simp_all
  have w: "take_rows (pair_table ?n)
       (np_where (map (\<lambda>d. rnd (d - clen) < climit) (mdv (pair_rows node_data ?n))))
      = Inr (map fst (filter (\<lambda>(r, d). rnd (d - clen) < climit)
                (zip (pair_table ?n) (mdv (pair_rows node_data ?n)))))"
    using md by (rule take_rows_where)
  show ?thesis
    unfolding jit_detect_collisions_def Let_def a b w sum.case ..
qed

subsection \<open>Sample rods, evaluated\<close>

lemma pair_table_4: "pair_table 4 = [[0, 3]]"
  by (simp add: pair_table_def upto.simps)

lemma pair_table_3: "pair_table 3 = []"
  by (simp add: pair_table_def)

lemma edge_of_numeral:
  "edge_of (x0 # x1 # x2 # x3 # x4 # x5 # rest) 0 = [x0, x1, x2, x3, x4, x5]"
  "edge_of (x0 # x1 # x2 # x3 # x4 # x5 # x6 # x7 # x8 # x9 # x10 # x11 # x12 # x13 # x14 # rest) 3
     = [x9, x10, x11, x12, x13, x14]"
  by (simp_all add: edge_of_def py_slice_def slice_idx_def Let_def)

lemma pair_rows_rod5: "pair_rows rod5 4 = [map Fin [0, 0, 0, 1, 0, 0, 3, 0, 0, 4, 0, 0]]"
  by (simp add: pair_rows_def pair_table_4 rod5_def edge_of_numeral)

lemma pair_rows_rod5_near:
  "pair_rows rod5_near 4 = [map Fin [0, 0, 0, 1, 0, 0, 17 / 16, 0, 0, 33 / 16, 0, 0]]"
  by (simp add: pair_rows_def pair_table_4 rod5_near_def edge_of_numeral)

lemma pair_rows_rod5_limit:
  "pair_rows rod5_limit 4
     = [map Fin [- 1, 0, 0, 0, 0, 0, 7782220156096217 / 144115188075855872, 0, 0, 2, 0, 0]]"
  by (simp add: pair_rows_def pair_table_4 rod5_limit_def edge_of_numeral)

lemma dyadic_15_8: "round64 (15 / 8) = Fin (15 / 8)"
  using round64_at [of "0" "15 / 8"] by (simp add: rne_def Let_def)

lemma dyadic_m1_16: "round64 (- (1 / 16)) = Fin (- (1 / 16))"
  using round64_at [of "- 4" "- (1 / 16)"] by (simp add: rne_def Let_def)

lemma dif_0054_0004: "round64 (14411518807585587 / 288230376151711744) = Fin (3602879701896397 / 72057594037927936)"
  using round64_at [of "- 5" "14411518807585587 / 288230376151711744"] by (simp add: rne_def Let_def)

subsection \<open>C5: what the collision detector returns\<close>

text \<open>
  C5, as the code has it. For a rod of at least four edges (a non-empty pair table) and
  every position buffer, the detector returns as active exactly the entries of the pair
  table whose distance minus \<open>contact_len\<close>, the difference rounded as float64 rounds it,
  is strictly below \<open>collision_limit\<close>, in the order of the table, and with them \<open>np.min\<close> of the distances of all the entries, whether
  or not an entry passes the filter; when no distance is NaN this is the least of them.
  The distances are those the minimum-distance function gives for the combined edges of
  the table's entries, one per entry.
\<close>

theorem detector_result:
  assumes n: "4 \<le> int (length es)" and es: "shape (length es) 6 es"
    and c: "shape (length (pair_table (int (length es)))) 12 combos"
    and nd: "length node_data = nat (3 * int (length es) + 3)"
    and md: "length (mdv (pair_rows node_data (int (length es))))
             = length (pair_table (int (length es)))"
  shows "\<exists>closest.
      jit_detect_collisions mdv es combos (pair_table (int (length es))) climit node_data clen 2
        = Inr (map (edge_of node_data) [0..int (length es) - 1],
               pair_rows node_data (int (length es)),
               map fst (filter (\<lambda>(r, d). rnd (d - clen) < climit)
                         (zip (pair_table (int (length es)))
                              (mdv (pair_rows node_data (int (length es)))))),
               closest)
      \<and> np_min (mdv (pair_rows node_data (int (length es)))) = Inr closest
      \<and> (list_all (\<lambda>d. \<not> isnan d) (mdv (pair_rows node_data (int (length es))))
           \<longrightarrow> closest \<in> set (mdv (pair_rows node_data (int (length es))))
               \<and> list_all (\<lambda>d. closest \<le> d) (mdv (pair_rows node_data (int (length es)))))"
proof -
  let ?ds = "mdv (pair_rows node_data (int (length es)))"
  have ne: "?ds \<noteq> []"
    using pair_table_nonempty [OF n] md by auto
  then obtain x rest where xs: "?ds = x # rest"
    by (cases ?ds) auto
  have m: "np_min ?ds = Inr (foldl fmin x rest)"
    unfolding xs by (simp add: np_min_def)
  have u: "jit_detect_collisions mdv es combos (pair_table (int (length es))) climit node_data clen 2
        = Inr (map (edge_of node_data) [0..int (length es) - 1],
               pair_rows node_data (int (length es)),
               map fst (filter (\<lambda>(r, d). rnd (d - clen) < climit)
                         (zip (pair_table (int (length es))) ?ds)),
               foldl fmin x rest)"
    unfolding jit_detect_collisions_unfold [where mdv = mdv and node_data = node_data and es = es, OF es c nd md] m by simp
  have l: "foldl fmin x rest \<in> set ?ds \<and> list_all (\<lambda>d. foldl fmin x rest \<le> d) ?ds"
    if "list_all (\<lambda>d. \<not> isnan d) ?ds"
    using np_min_least [OF ne that] m by simp
  show ?thesis
    using u m l by blast
qed

text \<open>
  Three rods of four edges: one whose pair is 0.0625 apart, one whose pair is 2 apart
  (contact length 0.125, collision limit 0.015625), and one whose pair is 0.054 apart with
  contact length 0.004 and collision limit 0.05, where the rounded difference equals the
  limit and the pair is left out.
\<close>

theorem detector_result_witness:
  "4 \<le> int (length (zeros2 4 6)) \<and> shape (length (zeros2 4 6)) 6 (zeros2 4 6)
   \<and> shape (length (pair_table 4)) 12 (zeros2 1 12)
   \<and> length rod5_near = nat (3 * 4 + 3)
   \<and> jit_detect_collisions (min_dist_vectorized sample_utils) (zeros2 4 6) (zeros2 1 12)
        (pair_table 4) (Fin (1 / 64)) rod5_near (Fin (1 / 8)) 2
      = Inr (map (edge_of rod5_near) [0..3], pair_rows rod5_near 4, [[0, 3]], Fin (1 / 16))
   \<and> jit_detect_collisions (min_dist_vectorized sample_utils) (zeros2 4 6) (zeros2 1 12)
        (pair_table 4) (Fin (1 / 64)) rod5 (Fin (1 / 8)) 2
      = Inr (map (edge_of rod5) [0..3], pair_rows rod5 4, [], Fin 2)
   \<and> jit_detect_collisions (min_dist_vectorized sample_utils) (zeros2 4 6) (zeros2 1 12)
        (pair_table 4) (Fin (3602879701896397 / 72057594037927936)) rod5_limit
        (Fin (1152921504606847 / 288230376151711744)) 2
      = Inr (map (edge_of rod5_limit) [0..3], pair_rows rod5_limit 4, [],
             Fin (7782220156096217 / 144115188075855872))"
proof -
  have l: "int (length (zeros2 4 6)) = 4"
    by (simp add: zeros2_def)
  have h: "4 \<le> int (length (zeros2 4 6))" "shape (length (zeros2 4 6)) 6 (zeros2 4 6)"
    "shape (length (pair_table (int (length (zeros2 4 6))))) 12 (zeros2 1 12)"
    using shape_zeros2 [of 4 6] shape_zeros2 [of 1 12] unfolding l
    by (simp_all add: pair_table_4 zeros2_def)
  have nd: "length rod5_near = nat (3 * int (length (zeros2 4 6)) + 3)"
    "length rod5 = nat (3 * int (length (zeros2 4 6)) + 3)"
    "length rod5_limit = nat (3 * int (length (zeros2 4 6)) + 3)"
    unfolding l by (simp_all add: rod5_near_def rod5_def rod5_limit_def)
  have d1: "min_dist_vectorized sample_utils (pair_rows rod5_near 4) = [Fin (1 / 16)]"
    and d2: "min_dist_vectorized sample_utils (pair_rows rod5 4) = [Fin 2]"
    and d3: "min_dist_vectorized sample_utils (pair_rows rod5_limit 4)
        = [Fin (7782220156096217 / 144115188075855872)]"
    by (simp_all add: sample_utils_def pair_rows_rod5_near pair_rows_rod5 pair_rows_rod5_limit
        minus_f64_def)
  have md: "length (min_dist_vectorized sample_utils (pair_rows rod5_near (int (length (zeros2 4 6)))))
      = length (pair_table (int (length (zeros2 4 6))))"
    "length (min_dist_vectorized sample_utils (pair_rows rod5 (int (length (zeros2 4 6)))))
      = length (pair_table (int (length (zeros2 4 6))))"
    "length (min_dist_vectorized sample_utils (pair_rows rod5_limit (int (length (zeros2 4 6)))))
      = length (pair_table (int (length (zeros2 4 6))))"
    unfolding l by (simp_all add: d1 d2 d3 pair_table_4)
  note t1 = detector_result [where mdv = "min_dist_vectorized sample_utils" and node_data = rod5_near
      and es = "zeros2 4 6" and combos = "zeros2 1 12" and climit = "Fin (1 / 64)"
      and clen = "Fin (1 / 8)", OF h nd(1) md(1), unfolded l d1]
  note t2 = detector_result [where mdv = "min_dist_vectorized sample_utils" and node_data = rod5
      and es = "zeros2 4 6" and combos = "zeros2 1 12" and climit = "Fin (1 / 64)"
      and clen = "Fin (1 / 8)", OF h nd(2) md(2), unfolded l d2]
  note t3 = detector_result [where mdv = "min_dist_vectorized sample_utils" and node_data = rod5_limit
      and es = "zeros2 4 6" and combos = "zeros2 1 12"
      and climit = "Fin (3602879701896397 / 72057594037927936)"
      and clen = "Fin (1152921504606847 / 288230376151711744)", OF h nd(3) md(3), unfolded l d3]
  from t1 have r1: "jit_detect_collisions (min_dist_vectorized sample_utils) (zeros2 4 6) (zeros2 1 12)
        (pair_table 4) (Fin (1 / 64)) rod5_near (Fin (1 / 8)) 2
      = Inr (map (edge_of rod5_near) [0..3], pair_rows rod5_near 4, [[0, 3]], Fin (1 / 16))"
    by (auto simp: np_min_def pair_table_4 minus_f64_def dyadic_m1_16)
  from t2 have r2: "jit_detect_collisions (min_dist_vectorized sample_utils) (zeros2 4 6) (zeros2 1 12)
        (pair_table 4) (Fin (1 / 64)) rod5 (Fin (1 / 8)) 2
      = Inr (map (edge_of rod5) [0..3], pair_rows rod5 4, [], Fin 2)"
    by (auto simp: np_min_def pair_table_4 minus_f64_def dyadic_15_8)
  from t3 have r3: "jit_detect_collisions (min_dist_vectorized sample_utils) (zeros2 4 6) (zeros2 1 12)
        (pair_table 4) (Fin (3602879701896397 / 72057594037927936)) rod5_limit
        (Fin (1152921504606847 / 288230376151711744)) 2
      = Inr (map (edge_of rod5_limit) [0..3], pair_rows rod5_limit 4, [],
             Fin (7782220156096217 / 144115188075855872))"
    by (auto simp: np_min_def pair_table_4 minus_f64_def dif_0054_0004)
  show ?thesis
    using h(1,2) h(3) [unfolded l] nd(1) [unfolded l] r1 r2 r3 by simp
qed

text \<open>
  A rod of three edges has no eligible pair: the batch of distances is empty and
  \<open>np.min\<close> raises ValueError, so the detector returns no minimum distance.
\<close>

theorem detector_empty_table_counterexample:
  "jit_detect_collisions (min_dist_vectorized sample_utils) (zeros2 3 6) [] (pair_table 3)
     (Fin (1 / 64)) rod4 (Fin (1 / 8)) 2 = Inl ValueError"
proof -
  have l: "int (length (zeros2 3 6)) = 3"
    by (simp add: zeros2_def)
  have e: "pair_rows rod4 3 = []"
    by (simp add: pair_rows_def pair_table_3)
  have u: "jit_detect_collisions (min_dist_vectorized sample_utils) (zeros2 3 6) []
      (pair_table (int (length (zeros2 3 6)))) (Fin (1 / 64)) rod4 (Fin (1 / 8)) 2
      = (case np_min (min_dist_vectorized sample_utils (pair_rows rod4 (int (length (zeros2 3 6))))) of
          Inl e \<Rightarrow> Inl e
        | Inr closest \<Rightarrow>
            Inr (map (edge_of rod4) [0..int (length (zeros2 3 6)) - 1],
                 pair_rows rod4 (int (length (zeros2 3 6))),
                 map fst (filter (\<lambda>(r, d). rnd (d - Fin (1 / 8)) < Fin (1 / 64))
                           (zip (pair_table (int (length (zeros2 3 6))))
                                (min_dist_vectorized sample_utils
                                   (pair_rows rod4 (int (length (zeros2 3 6))))))),
                 closest))"
  proof (rule jit_detect_collisions_unfold)
    show "shape (length (zeros2 3 6)) 6 (zeros2 3 6)"
      using shape_zeros2 [of 3 6] by (simp add: zeros2_def)
    show "shape (length (pair_table (int (length (zeros2 3 6))))) 12 []"
      unfolding l by (simp add: pair_table_3 shape_def)
    show "length rod4 = nat (3 * int (length (zeros2 3 6)) + 3)"
      unfolding l by (simp add: rod4_def)
    show "length (min_dist_vectorized sample_utils (pair_rows rod4 (int (length (zeros2 3 6)))))
        = length (pair_table (int (length (zeros2 3 6))))"
      unfolding l e by (simp add: sample_utils_def pair_table_3)
  qed
  show ?thesis
    using u unfolding l e by (simp add: sample_utils_def np_min_def)
qed

subsection \<open>The validity check\<close>

lemma get_forces_and_hessian_eq:
  "get_forces_and_hessian obj (es, ids, vs, sv)
     = write_hess obj (aggregate_forces obj (es, ids, vs, sv))
         (if isnan (np_sum2 (aggregate_forces obj (es, ids, vs, sv)))
             \<or> isinf (np_sum2 (aggregate_forces obj (es, ids, vs, sv)))
             \<or> isnan (np_sum3 (aggregate_jacobian obj (es, ids, vs, sv)))
             \<or> isinf (np_sum3 (aggregate_jacobian obj (es, ids, vs, sv)))
          then snd (contact_terms obj (es, ids, vs, sv))
          else aggregate_jacobian obj (es, ids, vs, sv)) ids"
  unfolding get_forces_and_hessian_def write_hess_def aggregate_forces_def aggregate_jacobian_def
    contact_terms_def Let_def split_def prod.case fst_conv snd_conv
  by (rule refl)

lemma sum_list_invalid:
  "list_ex (\<lambda>x. \<not> isfinite x) xs \<Longrightarrow> \<not> isfinite (sum_list xs)"
proof (induction xs)
  case Nil
  then show ?case by simp
next
  case (Cons x xs)
  show ?case
  proof (cases "isfinite x")
    case True
    with Cons have "\<not> isfinite (sum_list xs)" by simp
    then show ?thesis
      by (cases x; cases "sum_list xs") simp_all
  next
    case False
    then show ?thesis
      by (cases x; cases "sum_list xs") simp_all
  qed
qed

lemma not_finite_iff: "(\<not> isfinite x) = (isnan x \<or> isinf x)"
  by (cases x) simp_all

lemma invalid_sums:
  "invalid2 a \<Longrightarrow> isnan (np_sum2 a) \<or> isinf (np_sum2 a)"
  "invalid3 b \<Longrightarrow> isnan (np_sum3 b) \<or> isinf (np_sum3 b)"
  using sum_list_invalid [of "concat a"] sum_list_invalid [of "concat (concat b)"]
  by (simp_all add: invalid2_def invalid3_def np_sum2_def np_sum3_def not_finite_iff)

subsection \<open>Assembly into the shared buffers\<close>

lemma slice6:
  assumes "0 \<le> e" "nat (3 * e + 6) \<le> len"
  shows "slice_idx len (3 * e) = nat (3 * e)" "slice_idx len (3 * e + 6) = nat (3 * e) + 6"
    "slice_idx len (3 * e + 6) - slice_idx len (3 * e) = 6"
  using assms by (auto simp: slice_idx_def nat_add_distrib)

lemma np_iadd1_ok:
  assumes "0 \<le> e" "nat (3 * e + 6) \<le> length a" "length b = 6"
  shows "\<exists>r. np_iadd1 a (3 * e) (3 * e + 6) b = Inr r \<and> length r = length a"
  using assms slice6 [OF assms(1,2)]
  by (auto simp: np_iadd1_def Let_def nat_add_distrib)

lemma list_all_map2:
  assumes "\<And>x y. x \<in> set xs \<Longrightarrow> y \<in> set ys \<Longrightarrow> P (f x y)"
  shows "list_all P (map2 f xs ys)"
  unfolding list_all_iff
proof
  fix r assume "r \<in> set (map2 f xs ys)"
  then obtain x y where "(x, y) \<in> set (zip xs ys)" "r = f x y"
    by auto
  then show "P r"
    using assms by (auto dest: set_zip_leftD set_zip_rightD)
qed

lemma np_iadd2_ok:
  assumes e1: "0 \<le> e1" "nat (3 * e1 + 6) \<le> nv" and e2: "0 \<le> e2" "nat (3 * e2 + 6) \<le> nv"
    and a: "shape nv nv a" and b: "shape 6 6 b"
  shows "\<exists>r. np_iadd2 a (3 * e1) (3 * e1 + 6) (3 * e2) (3 * e2 + 6) b = Inr r \<and> shape nv nv r"
proof -
  have la: "length a = nv" using a by (rule shape_length)
  have ne: "a \<noteq> []" using la e1 by auto
  then have nc: "(case a of [] \<Rightarrow> 0 | row # _ \<Rightarrow> length row) = nv"
    using a by (cases a) (simp_all add: shape_def)
  note r = slice6 [OF e1 [unfolded la [symmetric]]]
  note c = slice6 [OF e2]
  have bc: "broadcast_to 6 6 b = Inr b"
    using b by (intro broadcast_exact) (simp_all add: shape_def)
  let ?f = "\<lambda>row v. take (nat (3 * e2)) row
      @ map2 (+) (take 6 (drop (nat (3 * e2)) row)) v @ drop (nat (3 * e2) + 6) row"
  let ?r = "take (nat (3 * e1)) a @ map2 ?f (take 6 (drop (nat (3 * e1)) a)) b
      @ drop (nat (3 * e1) + 6) a"
  have eq: "np_iadd2 a (3 * e1) (3 * e1 + 6) (3 * e2) (3 * e2 + 6) b = Inr ?r"
    by (simp add: np_iadd2_def Let_def nc r(1,2) c(1,2) bc)
  have lb: "length b = 6" and wb: "\<And>v. v \<in> set b \<Longrightarrow> length v = 6"
    using b by (simp_all add: shape_def list_all_iff)
  have wa: "\<And>row. row \<in> set a \<Longrightarrow> length row = nv"
    using a by (simp add: shape_def list_all_iff)
  have lr: "length ?r = nv"
    using la lb e1 by (simp add: nat_add_distrib)
  have wf: "length (?f row v) = nv" if "length row = nv" "length v = 6" for row v
    using that e2 by (simp add: nat_add_distrib)
  have p1: "list_all (\<lambda>row. length row = nv) (take (nat (3 * e1)) a)"
    using wa by (auto simp: list_all_iff dest: in_set_takeD)
  have p3: "list_all (\<lambda>row. length row = nv) (drop (nat (3 * e1) + 6) a)"
    using wa by (auto simp: list_all_iff dest: in_set_dropD)
  have p2: "list_all (\<lambda>row. length row = nv) (map2 ?f (take 6 (drop (nat (3 * e1)) a)) b)"
  proof (rule list_all_map2)
    fix x v assume "x \<in> set (take 6 (drop (nat (3 * e1)) a))" "v \<in> set b"
    then have "x \<in> set a" "v \<in> set b"
      by (auto dest: in_set_takeD in_set_dropD)
    then show "length (?f x v) = nv"
      using wf wa wb by simp
  qed
  have "list_all (\<lambda>row. length row = nv) ?r"
    using p1 p2 p3 by simp
  then have "shape nv nv ?r"
    using lr by (simp add: shape_def)
  with eq show ?thesis by blast
qed

lemma jacobian_blocks_shape:
  assumes "shape 12 12 j"
  shows "shape 6 6 (cols 0 6 (take 6 j))" "shape 6 6 (cols_from 6 (take 6 j))"
    "shape 6 6 (cols 0 6 (drop 6 j))" "shape 6 6 (cols_from 6 (drop 6 j))"
  using assms
  by (auto simp: shape_def cols_def cols_from_def list_all_iff dest: in_set_takeD in_set_dropD)

lemma add_jacobian_blocks_ok:
  assumes e1: "0 \<le> e1" "nat (3 * e1 + 6) \<le> nv" and e2: "0 \<le> e2" "nat (3 * e2 + 6) \<le> nv"
    and a: "shape nv nv a" and j: "shape 12 12 j"
  shows "\<exists>r. add_jacobian_blocks a e1 e2 j = Inr r \<and> shape nv nv r"
proof -
  note b = jacobian_blocks_shape [OF j]
  obtain r1 where r1: "np_iadd2 a (3 * e1) (3 * e1 + 6) (3 * e1) (3 * e1 + 6) (cols 0 6 (take 6 j)) = Inr r1"
    "shape nv nv r1"
    using np_iadd2_ok [OF e1 e1 a b(1)] by blast
  obtain r2 where r2: "np_iadd2 r1 (3 * e1) (3 * e1 + 6) (3 * e2) (3 * e2 + 6) (cols_from 6 (take 6 j)) = Inr r2"
    "shape nv nv r2"
    using np_iadd2_ok [OF e1 e2 r1(2) b(2)] by blast
  obtain r3 where r3: "np_iadd2 r2 (3 * e2) (3 * e2 + 6) (3 * e1) (3 * e1 + 6) (cols 0 6 (drop 6 j)) = Inr r3"
    "shape nv nv r3"
    using np_iadd2_ok [OF e2 e1 r2(2) b(3)] by blast
  obtain r4 where r4: "np_iadd2 r3 (3 * e2) (3 * e2 + 6) (3 * e2) (3 * e2 + 6) (cols_from 6 (drop 6 j)) = Inr r4"
    "shape nv nv r4"
    using np_iadd2_ok [OF e2 e2 r3(2) b(4)] by blast
  show ?thesis
    unfolding add_jacobian_blocks_def r1(1) r2(1) r3(1) sum.case using r4 by blast
qed

lemma pairs_fit_Cons:
  "pairs_fit nv (pair # ids) =
     ((\<exists>e1 e2. pair = [e1, e2] \<and> 0 \<le> e1 \<and> nat (3 * e1 + 6) \<le> nv \<and> 0 \<le> e2 \<and> nat (3 * e2 + 6) \<le> nv)
      \<and> pairs_fit nv ids)"
proof -
  have "(length pair = 2 \<and> list_all (\<lambda>e. 0 \<le> e \<and> nat (3 * e + 6) \<le> nv) pair)
      = (\<exists>e1 e2. pair = [e1, e2] \<and> 0 \<le> e1 \<and> nat (3 * e1 + 6) \<le> nv \<and> 0 \<le> e2 \<and> nat (3 * e2 + 6) \<le> nv)"
    by (cases pair rule: list.exhaust [case_product list.exhaust, of _ "tl pair"])
      (auto simp: length_Suc_conv numeral_2_eq_2)
  then show ?thesis
    by (simp add: pairs_fit_def)
qed

lemma py_to_cpp_nohess_ok:
  "length ids = length tf \<Longrightarrow> pairs_fit (length cpp) ids \<Longrightarrow> list_all (\<lambda>fv. length fv = 12) tf \<Longrightarrow>
     \<exists>r. py_to_cpp_nohess tf cpp ids = Inr r \<and> length r = length cpp"
proof (induction tf arbitrary: cpp ids)
  case Nil
  show ?case by simp
next
  case (Cons fv rest)
  from Cons.prems(1) obtain pair ids1 where ids: "ids = pair # ids1"
    by (cases ids) simp_all
  from Cons.prems(2) obtain e1 e2 where p: "pair = [e1, e2]"
    and e1: "0 \<le> e1" "nat (3 * e1 + 6) \<le> length cpp"
    and e2: "0 \<le> e2" "nat (3 * e2 + 6) \<le> length cpp"
    and fit: "pairs_fit (length cpp) ids1"
    unfolding ids pairs_fit_Cons by blast
  have lf: "length (take 6 fv) = 6" "length (drop 6 fv) = 6"
    using Cons.prems(3) by simp_all
  obtain c1 where c1: "np_iadd1 cpp (3 * e1) (3 * e1 + 6) (take 6 fv) = Inr c1" "length c1 = length cpp"
    using np_iadd1_ok [OF e1 lf(1)] by blast
  have e2': "nat (3 * e2 + 6) \<le> length c1" using e2(2) c1(2) by simp
  obtain c2 where c2: "np_iadd1 c1 (3 * e2) (3 * e2 + 6) (drop 6 fv) = Inr c2" "length c2 = length cpp"
    using np_iadd1_ok [OF e2(1) e2' lf(2)] c1(2) by auto
  have "\<exists>r. py_to_cpp_nohess rest c2 ids1 = Inr r \<and> length r = length c2"
    using Cons.prems fit c2(2) by (intro Cons.IH) (simp_all add: ids)
  then show ?case
    unfolding ids p using c1 c2 by simp
qed

lemma jit_py_to_cpp_hess_ok:
  "length ids = length tf \<Longrightarrow> length tj = length tf \<Longrightarrow> pairs_fit nv ids \<Longrightarrow>
     list_all (\<lambda>fv. length fv = 12) tf \<Longrightarrow> list_all (shape 12 12) tj \<Longrightarrow>
     length cpp = nv \<Longrightarrow> shape nv nv hs \<Longrightarrow>
     \<exists>r h. jit_py_to_cpp_hess tf tj cpp hs ids = Inr (r, h) \<and> length r = nv \<and> shape nv nv h"
proof (induction tf arbitrary: cpp hs ids tj)
  case Nil
  then show ?case by simp
next
  case (Cons fv rest)
  from Cons.prems(1) obtain pair ids1 where ids: "ids = pair # ids1"
    by (cases ids) simp_all
  from Cons.prems(2) obtain j tj1 where tj: "tj = j # tj1"
    by (cases tj) simp_all
  from Cons.prems(3) obtain e1 e2 where p: "pair = [e1, e2]"
    and e1: "0 \<le> e1" "nat (3 * e1 + 6) \<le> nv"
    and e2: "0 \<le> e2" "nat (3 * e2 + 6) \<le> nv"
    and fit: "pairs_fit nv ids1"
    unfolding ids pairs_fit_Cons by blast
  have lf: "length (take 6 fv) = 6" "length (drop 6 fv) = 6"
    using Cons.prems(4) by simp_all
  have e1': "nat (3 * e1 + 6) \<le> length cpp" using e1(2) Cons.prems(6) by simp
  obtain c1 where c1: "np_iadd1 cpp (3 * e1) (3 * e1 + 6) (take 6 fv) = Inr c1" "length c1 = nv"
    using np_iadd1_ok [OF e1(1) e1' lf(1)] Cons.prems(6) by auto
  have e2': "nat (3 * e2 + 6) \<le> length c1" using e2(2) c1(2) by simp
  obtain c2 where c2: "np_iadd1 c1 (3 * e2) (3 * e2 + 6) (drop 6 fv) = Inr c2" "length c2 = nv"
    using np_iadd1_ok [OF e2(1) e2' lf(2)] c1(2) by auto
  have sj: "shape 12 12 j" using Cons.prems(5) tj by simp
  obtain h4 where h4: "add_jacobian_blocks hs e1 e2 j = Inr h4" "shape nv nv h4"
    using add_jacobian_blocks_ok [OF e1 e2 Cons.prems(7) sj] by blast
  have "\<exists>r h. jit_py_to_cpp_hess rest tj1 c2 h4 ids1 = Inr (r, h) \<and> length r = nv \<and> shape nv nv h"
    using Cons.prems fit c2(2) h4(2) by (intro Cons.IH) (simp_all add: ids tj)
  then show ?case
    unfolding ids p tj using c1 c2 h4 by simp
qed

subsection \<open>The exceptions of each operation\<close>

lemma broadcast_to_error: "broadcast_to m n src = Inl e \<Longrightarrow> array_error e"
  by (auto simp: broadcast_to_def array_error_def split: if_splits)

lemma np_setitem_error: "np_setitem a r0 r1 c0 c1 src = Inl e \<Longrightarrow> array_error e"
  by (auto simp: np_setitem_def Let_def split: sum.splits dest: broadcast_to_error)

lemma np_setrow_error: "np_setrow a i v = Inl e \<Longrightarrow> array_error e"
  by (auto simp: np_setrow_def Let_def array_error_def split: if_splits)

lemma fill_edges_error: "fill_edges nd js es = Inl e \<Longrightarrow> array_error e"
  by (induction js arbitrary: es) (auto split: sum.splits dest: np_setrow_error)

lemma fill_edge_combos_error: "fill_edge_combos n gap es js ri combos = Inl e \<Longrightarrow> array_error e"
  by (induction js arbitrary: ri combos)
    (auto simp: Let_def split: sum.splits dest: np_setitem_error)

lemma take_rows_error: "take_rows a idx = Inl e \<Longrightarrow> array_error e"
  by (auto simp: take_rows_def array_error_def split: if_splits)

lemma np_min_error: "np_min xs = Inl e \<Longrightarrow> array_error e"
  by (auto simp: np_min_def array_error_def split: list.splits)

lemma jit_detect_collisions_error:
  "jit_detect_collisions mdv es combos ids climit nd clen gap = Inl e \<Longrightarrow> array_error e"
  by (auto simp: jit_detect_collisions_def Let_def split: sum.splits
      dest: fill_edges_error fill_edge_combos_error take_rows_error np_min_error)

lemma gather6_error: "gather6 data x = Inl e \<Longrightarrow> array_error e"
  by (auto simp: gather6_def Let_def array_error_def split: if_splits)

lemma gather_pairs_error: "gather_pairs data ids = Inl e \<Longrightarrow> array_error e"
proof (induction ids arbitrary: e)
  case Nil
  then show ?case by simp
next
  case (Cons pair ids)
  then show ?case
    by (auto simp: array_error_def split: list.splits sum.splits dest!: gather6_error)
qed

lemma jit_prepare_error:
  "jit_prepare_velocities ids vd = Inl e \<Longrightarrow> array_error e"
  "jit_prepare_edges mdf ids nd = Inl e \<Longrightarrow> array_error e"
  by (auto simp: jit_prepare_velocities_def jit_prepare_edges_def
      split: sum.splits prod.splits dest: gather_pairs_error np_min_error)

lemma np_iadd1_error: "np_iadd1 a r0 r1 b = Inl e \<Longrightarrow> array_error e"
  by (auto simp: np_iadd1_def Let_def array_error_def split: if_splits)

lemma np_iadd2_error: "np_iadd2 a r0 r1 c0 c1 b = Inl e \<Longrightarrow> array_error e"
  by (auto simp: np_iadd2_def Let_def split: sum.splits dest: broadcast_to_error)

lemma add_jacobian_blocks_error: "add_jacobian_blocks a e1 e2 j = Inl e \<Longrightarrow> array_error e"
  by (auto simp: add_jacobian_blocks_def split: sum.splits dest: np_iadd2_error)

lemma py_to_cpp_nohess_error: "py_to_cpp_nohess tf cpp ids = Inl (e, c) \<Longrightarrow> array_error e"
proof (induction tf arbitrary: cpp ids)
  case Nil
  then show ?case by simp
next
  case (Cons fv rest)
  show ?case
  proof (cases ids)
    case Nil
    with Cons.prems show ?thesis by (simp add: array_error_def)
  next
    case (Cons pair ids1)
    with Cons.prems Cons.IH show ?thesis
      by (auto simp: array_error_def split: list.splits sum.splits dest!: np_iadd1_error)
  qed
qed

lemma jit_py_to_cpp_hess_error:
  "jit_py_to_cpp_hess tf tj cpp hs ids = Inl (e, c, h) \<Longrightarrow> array_error e"
proof (induction tf arbitrary: tj cpp hs ids)
  case Nil
  then show ?case by simp
next
  case (Cons fv rest)
  show ?case
  proof (cases tj)
    case Nil
    with Cons.prems show ?thesis by (simp add: array_error_def)
  next
    case tj: (Cons j tj1)
    show ?thesis
    proof (cases ids)
      case Nil
      with Cons.prems tj show ?thesis by (simp add: array_error_def)
    next
      case (Cons pair ids1)
      with Cons.prems Cons.IH tj show ?thesis
        by (auto simp: array_error_def split: list.splits sum.splits
            dest!: np_iadd1_error add_jacobian_blocks_error)
    qed
  qed
qed

lemma array_error_simps [simp]:
  "\<not> array_error (AssertionError m)" "\<not> array_error AttributeError"
  "\<not> array_error TypeError" "\<not> array_error OverflowError"
  by (simp_all add: array_error_def)

lemma get_forces_error:
  "get_forces obj cp = Inl (e, obj1) \<Longrightarrow> array_error e \<or> (\<exists>m. e = AssertionError m)"
  by (auto simp: get_forces_def Let_def split: prod.splits sum.splits if_splits
      dest: py_to_cpp_nohess_error)

lemma write_hess_error: "write_hess obj tf tj ids = Inl (e, obj1) \<Longrightarrow> array_error e"
  by (auto simp: write_hess_def split: prod.splits sum.splits dest: jit_py_to_cpp_hess_error)

lemma get_forces_and_hessian_error:
  "get_forces_and_hessian obj cp = Inl (e, obj1) \<Longrightarrow> array_error e"
  by (cases cp) (auto simp: get_forces_and_hessian_eq dest: write_hess_error)

lemma contact_step_error:
  assumes "contact_step u obj first_iter hess ids vel prev = Inl (e, obj1)"
  shows "array_error e \<or> e = TypeError \<or> (hess = 0 \<and> (\<exists>m. e = AssertionError m))"
  using assms unfolding contact_step_def Let_def
  by (auto split: sum.splits prod.splits option.splits if_splits
      dest: jit_prepare_error get_forces_error get_forces_and_hessian_error)

lemma detect_stage_error:
  "detect_stage u srv obj first_iter = Inl (e, obj1) \<Longrightarrow> array_error e \<and> first_iter \<noteq> 0"
  by (auto simp: detect_stage_def detect_collisions_def Let_def
      split: if_splits sum.splits prod.splits dest: jit_detect_collisions_error)

lemma py_int_error: "py_int x = Inl e \<Longrightarrow> e = ValueError \<or> e = OverflowError"
  by (cases x) (simp_all add: py_int_def)

subsection \<open>The exceptions of a request\<close>

lemma serve_request_Aborted:
  assumes r: "serve_request u srv = Aborted e obj1"
  shows "array_error e \<or> e = OverflowError \<or> e = TypeError
     \<or> (e = AttributeError \<and> loc_edge_ids srv = None \<and> py_int (meta_data (self srv) ! 0) = Inr 0)
     \<or> ((\<exists>m. e = AssertionError m) \<and> py_int (meta_data (self srv) ! 5) = Inr 0)"
proof (cases "py_int (meta_data (self srv) ! 5)")
  case (Inl x)
  with r py_int_error [OF Inl] show ?thesis
    by (auto simp: serve_request_def Let_def array_error_def)
next
  case h: (Inr hess)
  show ?thesis
  proof (cases "py_int (meta_data (self srv) ! 0)")
    case (Inl x)
    with r h py_int_error [OF Inl] show ?thesis
      by (auto simp: serve_request_def Let_def array_error_def)
  next
    case f: (Inr first_iter)
    show ?thesis
    proof (cases "py_int (meta_data (self srv) ! 1)")
      case (Inl x)
      with r h f py_int_error [OF Inl] show ?thesis
        by (auto simp: serve_request_def Let_def array_error_def)
    next
      case c: (Inr fric)
      note r0 = r [unfolded serve_request_def Let_def h f c sum.case]
      show ?thesis
      proof (cases "detect_stage u srv (begin_request (self srv) fric) first_iter")
        case (Inl x)
        then obtain e1 o1 where x: "detect_stage u srv (begin_request (self srv) fric) first_iter
            = Inl (e1, o1)"
          by (cases x) auto
        from r0 have "e = e1" unfolding x by simp
        with detect_stage_error [OF x] show ?thesis by simp
      next
        case (Inr y)
        then obtain obj4 ids_opt cd where d:
          "detect_stage u srv (begin_request (self srv) fric) first_iter = Inr (obj4, ids_opt, cd)"
          by (cases y) auto
        note r1 = r0 [unfolded d sum.case prod.case]
        show ?thesis
        proof (cases ids_opt)
          case None
          from r1 have e: "e = AttributeError" unfolding None by simp
          have "first_iter = 0"
          proof (rule ccontr)
            assume "first_iter \<noteq> 0"
            with d None show False
              by (auto simp: detect_stage_def Let_def split: sum.splits prod.splits)
          qed
          moreover from this d None have "loc_edge_ids srv = None"
            using detect_stage_frame(8) [OF d] by simp
          ultimately show ?thesis
            using e f by simp
        next
          case (Some ids)
          note r2 = r1 [unfolded Some option.case]
          show ?thesis
          proof (cases "ids = []")
            case True
            with r2 show ?thesis by simp
          next
            case False
            with r2 obtain o7 where
              "contact_step u (reset_buffers obj4 hess) first_iter hess ids (loc_velocities srv)
                 (last_cd srv) = Inl (e, o7)"
              by (auto split: sum.splits prod.splits)
            from contact_step_error [OF this] h show ?thesis by auto
          qed
        qed
      qed
    qed
  qed
qed

subsection \<open>Sample objects, evaluated\<close>

lemma py_int_flags:
  "py_int (flags a b c ! 0) = Inr (if 0 \<le> a then \<lfloor>a\<rfloor> else \<lceil>a\<rceil>)"
  "py_int (flags a b c ! 1) = Inr (if 0 \<le> b then \<lfloor>b\<rfloor> else \<lceil>b\<rceil>)"
  "py_int (flags a b c ! 5) = Inr (if 0 \<le> c then \<lfloor>c\<rfloor> else \<lceil>c\<rceil>)"
  by (simp_all add: flags_def py_int_def)

lemma times_one: "x * Fin 1 = x"
  by (cases x) (simp_all add: inf_of_def)

lemma map_times_one: "map (\<lambda>x. x * Fin 1) xs = xs"
  by (simp add: times_one)

lemma sample_fields:
  "scale (sample_obj nd md) = Fin 1" "meta_data (sample_obj nd md) = md"
  "node_coordinates (sample_obj nd md) = nd" "velocities (sample_obj nd md) = replicate 15 (Fin 0)"
  "forces (sample_obj nd md) = replicate 15 (Fin 7)"
  "hessian (sample_obj nd md) = replicate 15 (replicate 15 (Fin 1))"
  "edges (sample_obj nd md) = zeros2 4 6" "edge_combos (sample_obj nd md) = zeros2 1 12"
  "edge_ids (sample_obj nd md) = pair_table 4" "collision_limit (sample_obj nd md) = Fin (1 / 64)"
  "contact_len (sample_obj nd md) = Fin (1 / 8)" "ia (sample_obj nd md) = 2"
  "contact_stiffness (sample_obj nd md) = Fin 1" "mu_k (sample_obj nd md) = Fin (1 / 2)"
  "dd_grads (sample_obj nd md) = sample_dd" "f_hess_const (sample_obj nd md) = sample_f_hess_const"
  by (simp_all add: sample_obj_def)

lemma begin_request_sample:
  "begin_request (sample_obj nd md) fric = (sample_obj nd md)\<lparr>friction := fric\<rparr>"
  by (simp add: begin_request_def Let_def sample_obj_def times_one)

subsection \<open>Doubles at the ends of the intervals\<close>

lemma dbl_0100: "round64 (3602879701896397 / 36028797018963968) = Fin (3602879701896397 / 36028797018963968)"
  using round64_at [of "- 4" "3602879701896397 / 36028797018963968"] by (simp add: rne_def Let_def)

lemma dbl_0096: "round64 (3458764513820541 / 36028797018963968) = Fin (3458764513820541 / 36028797018963968)"
  using round64_at [of "- 4" "3458764513820541 / 36028797018963968"] by (simp add: rne_def Let_def)

lemma dbl_0010: "round64 (5764607523034235 / 576460752303423488) = Fin (5764607523034235 / 576460752303423488)"
  using round64_at [of "- 7" "5764607523034235 / 576460752303423488"] by (simp add: rne_def Let_def)

lemma dbl_0009: "round64 (5188146770730811 / 576460752303423488) = Fin (5188146770730811 / 576460752303423488)"
  using round64_at [of "- 7" "5188146770730811 / 576460752303423488"] by (simp add: rne_def Let_def)

lemma sum_0100_0005: "round64 (121056757983718939 / 1152921504606846976) = Fin (3783023686991217 / 36028797018963968)"
  using round64_at [of "- 4" "121056757983718939 / 1152921504606846976"] by (simp add: rne_def Let_def)

lemma dif_0100_0004: "round64 (27670116110564329 / 288230376151711744) = Fin (3458764513820541 / 36028797018963968)"
  using round64_at [of "- 4" "27670116110564329 / 288230376151711744"] by (simp add: rne_def Let_def)

lemma dif_0100_0002: "round64 (56493153725735505 / 576460752303423488) = Fin (3530822107858469 / 36028797018963968)"
  using round64_at [of "- 4" "56493153725735505 / 576460752303423488"] by (simp add: rne_def Let_def)

lemma sum_0010_0005: "round64 (17293822569102705 / 1152921504606846976) = Fin (1080863910568919 / 72057594037927936)"
  using round64_at [of "- 7" "17293822569102705 / 1152921504606846976"] by (simp add: rne_def Let_def)

lemma dif_0010_0004: "round64 (3458764513820541 / 576460752303423488) = Fin (3458764513820541 / 576460752303423488)"
  using round64_at [of "- 8" "3458764513820541 / 576460752303423488"] by (simp add: rne_def Let_def)

lemma dif_0010_0002: "round64 (1152921504606847 / 144115188075855872) = Fin (1152921504606847 / 144115188075855872)"
  using round64_at [of "- 7" "1152921504606847 / 144115188075855872"] by (simp add: rne_def Let_def)

lemma dif_0010_0001: "round64 (10376293541461623 / 1152921504606846976) = Fin (1297036692682703 / 144115188075855872)"
  using round64_at [of "- 7" "10376293541461623 / 1152921504606846976"] by (simp add: rne_def Let_def)

lemma dbl_1005: "round64 (1131529406376837 / 1125899906842624) = Fin (1131529406376837 / 1125899906842624)"
  using round64_at [of "0" "1131529406376837 / 1125899906842624"] by (simp add: rne_def Let_def)

lemma dbl_1003: "round64 (4517110426252607 / 4503599627370496) = Fin (4517110426252607 / 4503599627370496)"
  using round64_at [of "0" "4517110426252607 / 4503599627370496"] by (simp add: rne_def Let_def)

lemma nested_intervals:
  assumes "\<not> c4 \<Longrightarrow> c2 \<Longrightarrow> l4" and "\<not> c2 \<Longrightarrow> c1 \<Longrightarrow> l2" and "\<not> c1 \<Longrightarrow> c0 \<Longrightarrow> l1"
  shows "(if a then x
          else if d then
            (if c4 then y4 else if c2 then y2 else if c1 then y1 else if c0 then y0 else k)
          else k)
       = (if a then x
          else if d then
            (if c4 then y4 else if l4 \<and> c2 then y2 else if l2 \<and> c1 then y1
             else if l1 \<and> c0 then y0 else k)
          else k)"
  using assms by (cases c4; cases c2; cases c1; cases c0) simp_all

subsection \<open>C7: the stiffness update law\<close>

text \<open>
  C7. For every current and previous minimum distance (any two float64 values, NaN and the
  infinities included), \<open>contact_stiffness\<close> is multiplied by 0.999 exactly when the current
  distance is above \<open>contact_len + 0.005\<close> and the distance increased; otherwise, when the
  distance decreased, by 1.01 below \<open>contact_len - 0.004\<close>, by 1.005 in
  \<open>[contact_len - 0.004, contact_len - 0.002)\<close>, by 1.003 in
  \<open>[contact_len - 0.002, contact_len - 0.001)\<close>, by 1.001 in
  \<open>[contact_len - 0.001, contact_len)\<close>; in every other case, an unchanged distance
  included, it is left as it is. The ends of the intervals and the products are the
  float64 ones: each literal is the nearest double and each sum, difference and product is
  rounded, as the code computes them.
\<close>

theorem stiffness_update_law:
  assumes "is_f64 cur" and "is_f64 prev"
  shows "update_contact_stiffness cl k cur prev =
     (if rnd (cl + round64 0.005) < cur \<and> prev < cur then rnd (k * round64 0.999)
      else if cur < prev then
        (if cur < rnd (cl - round64 0.004) then rnd (k * round64 1.01)
         else if rnd (cl - round64 0.004) \<le> cur \<and> cur < rnd (cl - round64 0.002)
         then rnd (k * round64 1.005)
         else if rnd (cl - round64 0.002) \<le> cur \<and> cur < rnd (cl - round64 0.001)
         then rnd (k * round64 1.003)
         else if rnd (cl - round64 0.001) \<le> cur \<and> cur < cl then rnd (k * round64 1.001)
         else k)
      else k)"
proof -
  have pos: "(Fin 0 < rnd (cur - prev)) = (prev < cur)"
    using assms by (rule rnd_diff_pos)
  have neg: "(rnd (cur - prev) < Fin 0) = (cur < prev)"
    using assms by (rule rnd_diff_neg)
  have l4: "round64 0.004 = Fin (1152921504606847 / 288230376151711744)"
    using lit_0004 by simp
  have l2: "round64 0.002 = Fin (1152921504606847 / 576460752303423488)"
    using lit_0002 by simp
  have l1: "round64 0.001 = Fin (1152921504606847 / 1152921504606846976)"
    using lit_0001 by simp
  show ?thesis
    unfolding update_contact_stiffness_def Let_def pos neg l4 l2 l1
  proof (rule nested_intervals)
    show "rnd (cl - Fin (1152921504606847 / 288230376151711744)) \<le> cur"
      if "\<not> cur < rnd (cl - Fin (1152921504606847 / 288230376151711744))"
        and "cur < rnd (cl - Fin (1152921504606847 / 576460752303423488))"
      using that(2,1) by (rule threshold_le)
    show "rnd (cl - Fin (1152921504606847 / 576460752303423488)) \<le> cur"
      if "\<not> cur < rnd (cl - Fin (1152921504606847 / 576460752303423488))"
        and "cur < rnd (cl - Fin (1152921504606847 / 1152921504606846976))"
      using that(2,1) by (rule threshold_le)
    show "rnd (cl - Fin (1152921504606847 / 1152921504606846976)) \<le> cur"
      if "\<not> cur < rnd (cl - Fin (1152921504606847 / 1152921504606846976))" and "cur < cl"
      using that(2,1) by (rule threshold_le_len)
  qed
qed

text \<open>
  At the end of an interval: with \<open>contact_len = 0.1\<close> and a distance that fell from 0.1 to
  0.096, the rounded \<open>0.1 - 0.004\<close> is the double 0.096 itself, so the factor is 1.005; with
  \<open>contact_len = 0.01\<close> and a distance that fell from 0.01 to 0.009, the rounded
  \<open>0.01 - 0.001\<close> is above the double 0.009, so the factor is 1.003.
\<close>

theorem stiffness_update_law_witness:
  "is_f64 (Fin (3458764513820541 / 36028797018963968))
   \<and> is_f64 (Fin (3602879701896397 / 36028797018963968))
   \<and> update_contact_stiffness (Fin (3602879701896397 / 36028797018963968)) (Fin 1)
        (Fin (3458764513820541 / 36028797018963968)) (Fin (3602879701896397 / 36028797018963968))
      = Fin (1131529406376837 / 1125899906842624)
   \<and> is_f64 (Fin (5188146770730811 / 576460752303423488))
   \<and> is_f64 (Fin (5764607523034235 / 576460752303423488))
   \<and> update_contact_stiffness (Fin (5764607523034235 / 576460752303423488)) (Fin 1)
        (Fin (5188146770730811 / 576460752303423488)) (Fin (5764607523034235 / 576460752303423488))
      = Fin (4517110426252607 / 4503599627370496)"
proof -
  have a: "is_f64 (Fin (3458764513820541 / 36028797018963968))"
    "is_f64 (Fin (3602879701896397 / 36028797018963968))"
    "is_f64 (Fin (5188146770730811 / 576460752303423488))"
    "is_f64 (Fin (5764607523034235 / 576460752303423488))"
    by (simp_all add: is_f64_def dbl_0100 dbl_0096 dbl_0010 dbl_0009)
  have b: "update_contact_stiffness (Fin (3602879701896397 / 36028797018963968)) (Fin 1)
        (Fin (3458764513820541 / 36028797018963968)) (Fin (3602879701896397 / 36028797018963968))
      = Fin (1131529406376837 / 1125899906842624)"
    using stiffness_update_law [OF a(1) a(2), of "Fin (3602879701896397 / 36028797018963968)" "Fin 1"]
    by (simp add: minus_f64_def lit_0005 lit_0004 lit_0002 lit_1005 sum_0100_0005 dif_0100_0004
        dif_0100_0002 dbl_1005)
  have c: "update_contact_stiffness (Fin (5764607523034235 / 576460752303423488)) (Fin 1)
        (Fin (5188146770730811 / 576460752303423488)) (Fin (5764607523034235 / 576460752303423488))
      = Fin (4517110426252607 / 4503599627370496)"
    using stiffness_update_law [OF a(3) a(4), of "Fin (5764607523034235 / 576460752303423488)" "Fin 1"]
    by (simp add: minus_f64_def lit_0005 lit_0004 lit_0002 lit_0001 lit_1003 sum_0010_0005
        dif_0010_0004 dif_0010_0002 dif_0010_0001 dbl_1003)
  from a b c show ?thesis
    by simp
qed

end
